theory Spec2Isabelle
  imports Main
begin

section \<open>Pattern redactor: the masking routine of \<^verbatim>\<open>patternred.py\<close>\<close>

text \<open>
  The processor masks every match of a list of regular expressions. A Python \<^verbatim>\<open>str\<close> is
  modelled as a \<^typ>\<open>string\<close>, one \<^typ>\<open>char\<close> per character; Python's unbounded
  integers are \<^typ>\<open>int\<close>. Exceptions are values of \<open>py_error\<close>, and a function that
  may raise returns \<open>py_error + 'a\<close>.
\<close>

subsection \<open>Python's string operations\<close>

text \<open>\<^verbatim>\<open>s[:k]\<close>: a negative bound counts from the end and is clipped at 0.\<close>

definition slice_to :: "string \<Rightarrow> int \<Rightarrow> string" where
  "slice_to s k = (if k < 0 then take (nat (int (length s) + k)) s else take (nat k) s)"

text \<open>\<^verbatim>\<open>s[i:]\<close>: a negative start counts from the end; \<^verbatim>\<open>s[-0:]\<close> is \<^verbatim>\<open>s[0:]\<close>.\<close>

definition slice_from :: "string \<Rightarrow> int \<Rightarrow> string" where
  "slice_from s i = (if i < 0 then drop (nat (int (length s) + i)) s else drop (nat i) s)"

text \<open>\<^verbatim>\<open>s * n\<close>: the empty string when \<open>n \<le> 0\<close>.\<close>

definition str_mul :: "string \<Rightarrow> int \<Rightarrow> string" where
  "str_mul s n = concat (replicate (nat n) s)"

text \<open>\<^verbatim>\<open>sep.join(parts)\<close>.\<close>

fun str_join :: "string \<Rightarrow> string list \<Rightarrow> string" where
  "str_join sep [] = []"
| "str_join sep [x] = x"
| "str_join sep (x # y # zs) = x @ sep @ str_join sep (y # zs)"

subsection \<open>Exceptions\<close>

text \<open>
  \<open>ReError p\<close> is \<^verbatim>\<open>re.error\<close> for the pattern \<open>p\<close>; \<open>AttributeError\<close> and
  \<open>UnboundLocalError\<close> are the interpreter's. \<open>OutsideFragment\<close> is raised by no Python
  code: it is the answer of the concrete regular-expression fragment below on a pattern that
  it does not cover.
\<close>

datatype py_error = ReError string | AttributeError | UnboundLocalError | OutsideFragment string

subsection \<open>\<^verbatim>\<open>partial_mask\<close>\<close>

text \<open>
  The closure \<^verbatim>\<open>partial_mask(match)\<close> of \<^verbatim>\<open>mask_matches\<close>; the variables it captures are
  parameters, and its argument is \<^verbatim>\<open>match.group()\<close>, the matched text.
\<close>

definition partial_mask :: "int \<Rightarrow> int \<Rightarrow> string \<Rightarrow> string \<Rightarrow> string" where
  "partial_mask reveal_start reveal_end placeholder matched_text =
     (let len = int (length matched_text) in
      if len \<le> reveal_start + reveal_end then str_mul placeholder len
      else
        let visible_start = slice_to matched_text reveal_start;
            visible_end = slice_from matched_text (- reveal_end);
            masked_part = str_mul placeholder (len - (reveal_start + reveal_end))
        in visible_start @ masked_part @ visible_end)"

subsection \<open>The regular-expression library\<close>

text \<open>
  Python's \<^verbatim>\<open>re\<close> module is not part of the repository, so it is a parameter: a compiler
  of pattern strings that may raise, and for a compiled pattern and a text the spans
  \<open>(start, end)\<close> of the matches that \<^verbatim>\<open>pattern.sub\<close> visits, in the order it visits them.
\<close>

record 'p re_lib =
  compile :: "string \<Rightarrow> py_error + 'p"
  finditer :: "'p \<Rightarrow> string \<Rightarrow> (nat \<times> nat) list"

text \<open>
  \<^verbatim>\<open>pattern.sub(repl, string)\<close> with a callable \<open>repl\<close>: the text before each match is
  copied, the match is replaced by \<open>repl\<close> of the matched text, and the scan goes on at the end
  of the match; the text after the last match is copied. \<open>i\<close> is the position reached.
\<close>

fun sub_spans :: "(string \<Rightarrow> string) \<Rightarrow> string \<Rightarrow> nat \<Rightarrow> (nat \<times> nat) list \<Rightarrow> string" where
  "sub_spans repl s i [] = drop i s"
| "sub_spans repl s i ((b, e) # ms) =
     take (b - i) (drop i s) @ repl (take (e - b) (drop b s)) @ sub_spans repl s e ms"

definition pattern_sub :: "'p re_lib \<Rightarrow> (string \<Rightarrow> string) \<Rightarrow> 'p \<Rightarrow> string \<Rightarrow> string" where
  "pattern_sub E repl p s = sub_spans repl s 0 (finditer E p s)"

text \<open>Spans that lie in a text of length \<open>n\<close>, from position \<open>i\<close> on, in order and disjoint.\<close>

fun spans_ok :: "nat \<Rightarrow> nat \<Rightarrow> (nat \<times> nat) list \<Rightarrow> bool" where
  "spans_ok n i [] = True"
| "spans_ok n i ((b, e) # ms) = (i \<le> b \<and> b \<le> e \<and> e \<le> n \<and> spans_ok n e ms)"

text \<open>
  The substitution in the words of the specification: every match is replaced and the text
  between the matches is kept. Match \<open>k\<close> is the text at span \<open>k\<close>; the gap before it runs
  from the end of the match before (from \<open>i\<close> for the first one) to its start; after the
  last match the rest of the text follows.
\<close>

definition prev_end :: "nat \<Rightarrow> (nat \<times> nat) list \<Rightarrow> nat \<Rightarrow> nat" where
  "prev_end i ms k = (if k = 0 then i else snd (ms ! (k - 1)))"

definition gap_before :: "string \<Rightarrow> nat \<Rightarrow> (nat \<times> nat) list \<Rightarrow> nat \<Rightarrow> string" where
  "gap_before s i ms k = take (fst (ms ! k) - prev_end i ms k) (drop (prev_end i ms k) s)"

definition matched_text_at :: "string \<Rightarrow> (nat \<times> nat) list \<Rightarrow> nat \<Rightarrow> string" where
  "matched_text_at s ms k = take (snd (ms ! k) - fst (ms ! k)) (drop (fst (ms ! k)) s)"

definition last_end :: "nat \<Rightarrow> (nat \<times> nat) list \<Rightarrow> nat" where
  "last_end i ms = (if ms = [] then i else snd (last ms))"

definition replace_from ::
  "(string \<Rightarrow> string) \<Rightarrow> string \<Rightarrow> nat \<Rightarrow> (nat \<times> nat) list \<Rightarrow> string" where
  "replace_from repl s i ms =
     concat (map (\<lambda>k. gap_before s i ms k @ repl (matched_text_at s ms k)) [0..<length ms])
     @ drop (last_end i ms) s"

definition replace_all :: "(string \<Rightarrow> string) \<Rightarrow> string \<Rightarrow> (nat \<times> nat) list \<Rightarrow> string" where
  "replace_all repl s ms = replace_from repl s 0 ms"

subsection \<open>\<^verbatim>\<open>mask_matches\<close>\<close>

text \<open>The list comprehension \<^verbatim>\<open>[re.compile(pattern) for pattern in patterns]\<close>.\<close>

fun compile_patterns :: "'p re_lib \<Rightarrow> string list \<Rightarrow> py_error + 'p list" where
  "compile_patterns E [] = Inr []"
| "compile_patterns E (pattern # patterns) =
     (case compile E pattern of
        Inl err \<Rightarrow> Inl err
      | Inr p \<Rightarrow>
          (case compile_patterns E patterns of
             Inl err \<Rightarrow> Inl err
           | Inr ps \<Rightarrow> Inr (p # ps)))"

text \<open>The loop \<^verbatim>\<open>for pattern in compiled_patterns: content = pattern.sub(partial_mask, content)\<close>.\<close>

fun sub_all :: "'p re_lib \<Rightarrow> (string \<Rightarrow> string) \<Rightarrow> 'p list \<Rightarrow> string \<Rightarrow> string" where
  "sub_all E repl [] content = content"
| "sub_all E repl (pattern # compiled_patterns) content =
     sub_all E repl compiled_patterns (pattern_sub E repl pattern content)"

definition mask_matches ::
  "'p re_lib \<Rightarrow> string \<Rightarrow> string list \<Rightarrow> int \<Rightarrow> int \<Rightarrow> string \<Rightarrow> py_error + string" where
  "mask_matches E content patterns reveal_start reveal_end placeholder =
     (case compile_patterns E patterns of
        Inl err \<Rightarrow> Inl err
      | Inr compiled_patterns \<Rightarrow>
          Inr (sub_all E (partial_mask reveal_start reveal_end placeholder)
                 compiled_patterns content))"

section \<open>The processor\<close>

subsection \<open>Messages, prompt, response and parameters\<close>

text \<open>
  Modelled from the spec: the gateway SDK's \<^verbatim>\<open>MessageRole\<close>, \<^verbatim>\<open>Message\<close>, request and
  response classes are imported by \<^verbatim>\<open>patternred.py\<close> and not defined there. A message has
  a role (user, system or assistant) and a text content; a prompt has an ordered sequence of
  messages; a response has an ordered sequence of choices, each with a message.
  \<^verbatim>\<open>process\<close> asks \<^verbatim>\<open>hasattr(response, "choices")\<close> and
  \<^verbatim>\<open>hasattr(choices[0], "message")\<close>, so both attributes are optional here:
  \<open>None\<close> is an object without the attribute.
\<close>

datatype MessageRole = USER | SYSTEM | ASSISTANT

record Message =
  content :: string
  role :: MessageRole

record RequestInput =
  messages :: "Message list"

record Choice =
  message :: "Message option"

record ResponseOutput =
  choices :: "Choice list option"

text \<open>\<^verbatim>\<open>class PatternRedactorParameters(Parameters)\<close>: five typed fields and no validator.\<close>

record PatternRedactorParameters =
  rules :: "string list"
  debug_echo :: bool
  placeholder :: string
  reveal_start :: int
  reveal_end :: int

definition DEFAULT_PLACEHOLDER :: string where
  "DEFAULT_PLACEHOLDER = ''*''"

text \<open>
  What \<^verbatim>\<open>PatternRedactorParameters(rules=..., ...)\<close> does with well-typed arguments: the
  class declares field types and defaults only, so the object is built and nothing is
  compiled or rejected.
\<close>

definition PatternRedactorParameters_init ::
  "string list \<Rightarrow> bool \<Rightarrow> string \<Rightarrow> int \<Rightarrow> int \<Rightarrow> py_error + PatternRedactorParameters" where
  "PatternRedactorParameters_init rs de ph rv_start rv_end =
     Inr \<lparr>rules = rs, debug_echo = de, placeholder = ph,
          reveal_start = rv_start, reveal_end = rv_end\<rparr>"

text \<open>The \<^verbatim>\<open>Result\<close> that \<^verbatim>\<open>process\<close> returns; metadata and tags are key-value lists.\<close>

record Result =
  processor_result :: "(string \<times> string) list"
  tags :: "(string \<times> string) list"
  modified :: bool
  modified_prompt :: "RequestInput option"
  modified_response :: "ResponseOutput option"

subsection \<open>\<^verbatim>\<open>process\<close>\<close>

text \<open>
  \<^verbatim>\<open>" ".join(message.content for message in prompt.messages if message.role == MessageRole.USER)\<close>
\<close>

definition user_input_of :: "RequestInput \<Rightarrow> string" where
  "user_input_of prompt =
     str_join '' '' (map content (filter (\<lambda>m. role m = USER) (messages prompt)))"

text \<open>
  The loop that assigns \<^verbatim>\<open>message.content = masked_content\<close> to the first message whose role
  is user and then leaves by \<^verbatim>\<open>break\<close>.
\<close>

fun overwrite_first_user :: "string \<Rightarrow> Message list \<Rightarrow> Message list" where
  "overwrite_first_user masked_content [] = []"
| "overwrite_first_user masked_content (m # ms) =
     (if role m = USER then m\<lparr>content := masked_content\<rparr> # ms
      else m # overwrite_first_user masked_content ms)"

text \<open>
  The extraction of lines 121 to 128. The local variable \<^verbatim>\<open>masked_response_content\<close> is
  assigned only when the response has the attribute \<^verbatim>\<open>choices\<close>, the list is not empty and
  its first entry has the attribute \<^verbatim>\<open>message\<close>; \<open>None\<close> is the unbound variable.
\<close>

definition extract_and_mask ::
  "'p re_lib \<Rightarrow> ResponseOutput \<Rightarrow> PatternRedactorParameters \<Rightarrow> py_error + string option" where
  "extract_and_mask E response parameters =
     (case choices response of
        None \<Rightarrow> Inr None
      | Some cs \<Rightarrow>
          (case cs of
             [] \<Rightarrow> Inr None
           | c # _ \<Rightarrow>
               (case message c of
                  None \<Rightarrow> Inr None
                | Some m \<Rightarrow>
                    (case mask_matches E (content m) (rules parameters)
                            (reveal_start parameters) (reveal_end parameters)
                            (placeholder parameters) of
                       Inl err \<Rightarrow> Inl err
                     | Inr masked_response_content \<Rightarrow> Inr (Some masked_response_content)))))"

text \<open>
  The loop \<^verbatim>\<open>for choice in response.choices: choice.message.content = masked_response_content\<close>.
  Each round reads the variable first (\<^verbatim>\<open>UnboundLocalError\<close> when it was never assigned),
  then the attribute \<^verbatim>\<open>choice.message\<close> (\<^verbatim>\<open>AttributeError\<close> when the choice has none).
\<close>

fun write_choices :: "string option \<Rightarrow> Choice list \<Rightarrow> py_error + Choice list" where
  "write_choices masked_response_content [] = Inr []"
| "write_choices masked_response_content (choice # cs) =
     (case masked_response_content of
        None \<Rightarrow> Inl UnboundLocalError
      | Some txt \<Rightarrow>
          (case message choice of
             None \<Rightarrow> Inl AttributeError
           | Some m \<Rightarrow>
               (case write_choices masked_response_content cs of
                  Inl err \<Rightarrow> Inl err
                | Inr cs' \<Rightarrow> Inr (choice\<lparr>message := Some (m\<lparr>content := txt\<rparr>)\<rparr> # cs'))))"

text \<open>
  The block \<^verbatim>\<open>if response:\<close> of lines 119 to 133. An absent response is \<open>None\<close>; a response
  object is true. Reading \<^verbatim>\<open>response.choices\<close> for the loop raises \<^verbatim>\<open>AttributeError\<close> when
  the object has no such attribute.
\<close>

definition mask_response ::
  "'p re_lib \<Rightarrow> ResponseOutput option \<Rightarrow> PatternRedactorParameters
     \<Rightarrow> py_error + ResponseOutput option" where
  "mask_response E response parameters =
     (case response of
        None \<Rightarrow> Inr None
      | Some r \<Rightarrow>
          (case extract_and_mask E r parameters of
             Inl err \<Rightarrow> Inl err
           | Inr masked_response_content \<Rightarrow>
               (case choices r of
                  None \<Rightarrow> Inl AttributeError
                | Some cs \<Rightarrow>
                    (case write_choices masked_response_content cs of
                       Inl err \<Rightarrow> Inl err
                     | Inr cs' \<Rightarrow> Inr (Some (r\<lparr>choices := Some cs'\<rparr>))))))"

text \<open>
  \<^verbatim>\<open>process\<close>. The prompt and the response are mutated in place, so the function returns
  their final states beside the \<^verbatim>\<open>Result\<close>. The \<^verbatim>\<open>print\<close> calls and the \<^verbatim>\<open>Result\<close> of line 129,
  which line 136 overwrites, are left out; a prompt object is true.
\<close>

definition process ::
  "'p re_lib \<Rightarrow> RequestInput \<Rightarrow> ResponseOutput option \<Rightarrow> PatternRedactorParameters
     \<Rightarrow> py_error + (RequestInput \<times> ResponseOutput option \<times> Result)" where
  "process E prompt response parameters =
     (case mask_matches E (user_input_of prompt) (rules parameters)
             (reveal_start parameters) (reveal_end parameters) (placeholder parameters) of
        Inl err \<Rightarrow> Inl err
      | Inr masked_content \<Rightarrow>
          (let prompt1 = prompt\<lparr>messages := overwrite_first_user masked_content (messages prompt)\<rparr>
           in case mask_response E response parameters of
                Inl err \<Rightarrow> Inl err
              | Inr response1 \<Rightarrow>
                  (if debug_echo parameters then
                     (let prompt2 = prompt1\<lparr>messages := messages prompt1 @
                            [\<lparr>content = masked_content, role = SYSTEM\<rparr>]\<rparr>
                      in Inr (prompt2, response1,
                              \<lparr>processor_result = [(''llm_flow'', ''debug'')],
                               tags = [(''llm_flow'', ''debug'')],
                               modified = True,
                               modified_prompt = Some prompt2,
                               modified_response = None\<rparr>))
                   else
                     Inr (prompt1, response1,
                          \<lparr>processor_result = [(''llm_flow'', ''debug'')],
                           tags = [],
                           modified = True,
                           modified_prompt = (if response = None then Some prompt1 else None),
                           modified_response = response1\<rparr>))))"

section \<open>A fragment of Python's regular expressions\<close>

text \<open>
  A concrete library for the closed examples: patterns that are a sequence of items, each a
  set of characters (a literal, an escaped punctuation character, \<^verbatim>\<open>\d\<close>, a dot or a class
  in brackets) with an optional greedy quantifier. The compiler answers \<open>ReError\<close> where
  Python's \<^verbatim>\<open>re.compile\<close> raises \<^verbatim>\<open>re.error\<close>, and \<open>OutsideFragment\<close> on every pattern it
  does not cover (groups, alternation, anchors, lazy quantifiers and the like). Matching is
  Python's: leftmost, each quantifier as long as possible, backtracking by one repetition.
\<close>

subsection \<open>Matching\<close>

text \<open>A set of characters: inclusive ranges, complemented when the flag is set.\<close>

datatype cset = CSet bool "(char \<times> char) list"

definition in_range :: "char \<Rightarrow> char \<times> char \<Rightarrow> bool" where
  "in_range c r = ((of_char (fst r) :: nat) \<le> of_char c \<and> (of_char c :: nat) \<le> of_char (snd r))"

fun cset_mem :: "cset \<Rightarrow> char \<Rightarrow> bool" where
  "cset_mem (CSet negated ranges) c = (list_ex (in_range c) ranges \<noteq> negated)"

text \<open>An item: a set of characters repeated at least \<open>lo\<close> and at most \<open>hi\<close> times.\<close>

datatype item = Item cset nat "nat option"

text \<open>The first success of \<open>f\<close> on the counts \<open>k\<close>, \<open>k - 1\<close>, ..., down to \<open>lo\<close>.\<close>

primrec try_down :: "(nat \<Rightarrow> nat option) \<Rightarrow> nat \<Rightarrow> nat \<Rightarrow> nat option" where
  "try_down f lo 0 = (if 0 < lo then None else f 0)"
| "try_down f lo (Suc k) =
     (if Suc k < lo then None
      else case f (Suc k) of Some r \<Rightarrow> Some r | None \<Rightarrow> try_down f lo k)"

text \<open>
  A match of the items at the head of \<open>s\<close>: the length matched, \<open>acc\<close> characters being
  matched already. Each item takes as many characters as it can and gives them back one at
  a time while the items after it fail. With \<open>must_advance\<close> the empty match is refused,
  as the engine does right after an empty match.
\<close>

fun match_items :: "item list \<Rightarrow> string \<Rightarrow> nat \<Rightarrow> bool \<Rightarrow> nat option" where
  "match_items [] s acc must_advance = (if must_advance \<and> acc = 0 then None else Some acc)"
| "match_items (Item cs lo hi # its) s acc must_advance =
     (let n = length (takeWhile (cset_mem cs) s);
          m = (case hi of None \<Rightarrow> n | Some h \<Rightarrow> min h n)
      in try_down (\<lambda>k. match_items its (drop k s) (acc + k) must_advance) lo m)"

lemma try_down_bound:
  "try_down f lo m = Some r \<Longrightarrow> \<exists>k\<le>m. f k = Some r"
  by (induction m) (auto split: if_splits option.splits intro: le_SucI)

lemma match_items_bounds:
  "match_items its s acc adv = Some r \<Longrightarrow> acc \<le> r \<and> r \<le> acc + length s \<and> (adv \<longrightarrow> 0 < r)"
proof (induction its arbitrary: s acc r)
  case Nil
  then show ?case by (auto split: if_splits)
next
  case (Cons it its)
  obtain cs lo hi where it: "it = Item cs lo hi" by (cases it)
  define n where "n = length (takeWhile (cset_mem cs) s)"
  define m where "m = (case hi of None \<Rightarrow> n | Some h \<Rightarrow> min h n)"
  have "n \<le> length s" unfolding n_def by (rule length_takeWhile_le)
  then have m: "m \<le> length s" unfolding m_def by (auto split: option.splits)
  from Cons.prems have "try_down (\<lambda>k. match_items its (drop k s) (acc + k) adv) lo m = Some r"
    unfolding m_def n_def by (simp add: it Let_def)
  then obtain k where k: "k \<le> m" "match_items its (drop k s) (acc + k) adv = Some r"
    using try_down_bound by blast
  from Cons.IH[OF k(2)] k(1) m show ?case by auto
qed

text \<open>
  The matches that \<^verbatim>\<open>pattern.sub\<close> visits in the text, \<open>rest\<close> being the text from position
  \<open>pos\<close> on: the leftmost match, then the scan goes on at its end; where nothing matches the
  scan moves one character on. After an empty match the next one at the same position must
  not be empty.
\<close>

function scan :: "item list \<Rightarrow> nat \<Rightarrow> bool \<Rightarrow> string \<Rightarrow> (nat \<times> nat) list" where
  "scan its pos must_advance rest =
     (case match_items its rest 0 must_advance of
        Some k \<Rightarrow> (pos, pos + k) # scan its (pos + k) (k = 0) (drop k rest)
      | None \<Rightarrow>
          (case rest of
             [] \<Rightarrow> []
           | c # cs \<Rightarrow> scan its (pos + 1) False cs))"
  by pat_completeness auto
termination
proof (relation "measure (\<lambda>(its, pos, adv, rest). 2 * length rest + (if adv then 0 else 1))")
  show "wf (measure (\<lambda>(its, pos, adv, rest). 2 * length rest + (if adv then 0 else 1)))"
    by simp
next
  fix its :: "item list" and pos :: nat and must_advance :: bool and rest :: string and k :: nat
  assume "match_items its rest 0 must_advance = Some k"
  from match_items_bounds[OF this] 
  show "((its, pos + k, k = 0, drop k rest), (its, pos, must_advance, rest))
         \<in> measure (\<lambda>(its, pos, adv, rest). 2 * length rest + (if adv then 0 else 1))"
    by auto
next
  fix its :: "item list" and pos :: nat and must_advance :: bool and rest :: string and c cs
  assume "rest = c # cs"
  then show "((its, pos + 1, False, cs), (its, pos, must_advance, rest))
         \<in> measure (\<lambda>(its, pos, adv, rest). 2 * length rest + (if adv then 0 else 1))"
    by auto
qed

subsection \<open>Compiling\<close>

text \<open>
  The result of parsing: a value, \<open>Invalid\<close> where \<^verbatim>\<open>re.compile\<close> raises \<^verbatim>\<open>re.error\<close>, or
  \<open>Unsupported\<close> for syntax outside the fragment.
\<close>

datatype 'a parsed = Parsed 'a | Invalid | Unsupported

text \<open>Classes of ASCII characters, the backslash, and the value of a string of digits.\<close>

definition is_digit :: "char \<Rightarrow> bool" where
  "is_digit c = in_range c (CHR ''0'', CHR ''9'')"

definition is_alnum :: "char \<Rightarrow> bool" where
  "is_alnum c = (is_digit c \<or> in_range c (CHR ''a'', CHR ''z'') \<or> in_range c (CHR ''A'', CHR ''Z''))"

definition is_printable :: "char \<Rightarrow> bool" where
  "is_printable c = in_range c (CHR '' '', CHR ''~'')"

definition backslash :: char where
  "backslash = CHR 0x5C"

definition digit_value :: "string \<Rightarrow> nat" where
  "digit_value ds = foldl (\<lambda>n d. 10 * n + (of_char d - of_char (CHR ''0''))) 0 ds"

text \<open>Repetition counts above this bound are left outside the fragment.\<close>

definition max_count :: nat where
  "max_count = 1000"

text \<open>A quantifier that follows an atom, and the pattern after it.\<close>

definition parse_quant :: "string \<Rightarrow> (nat \<times> nat option \<times> string) parsed" where
  "parse_quant s =
     (case s of
        [] \<Rightarrow> Parsed (1, Some 1, [])
      | q # r \<Rightarrow>
          if q = CHR ''*'' then Parsed (0, None, r)
          else if q = CHR ''+'' then Parsed (1, None, r)
          else if q = CHR ''?'' then Parsed (0, Some 1, r)
          else if q = CHR ''{'' then
            (let ds = takeWhile is_digit r; r1 = dropWhile is_digit r; n = digit_value ds in
             if ds = [] \<or> max_count < n then Unsupported
             else
               (case r1 of
                  [] \<Rightarrow> Unsupported
                | x # r2 \<Rightarrow>
                    if x = CHR ''}'' then Parsed (n, Some n, r2)
                    else if x = CHR '','' then
                      (let ds2 = takeWhile is_digit r2; r3 = dropWhile is_digit r2;
                           m = digit_value ds2 in
                       case r3 of
                         [] \<Rightarrow> Unsupported
                       | y # r4 \<Rightarrow>
                           if max_count < m \<or> y \<noteq> CHR ''}'' then Unsupported
                           else if ds2 = [] then Parsed (n, None, r4)
                           else if m < n then Invalid
                           else Parsed (n, Some m, r4))
                    else Unsupported))
          else Parsed (1, Some 1, s))"

text \<open>A character that stands for itself inside a class.\<close>

definition class_plain :: "char \<Rightarrow> bool" where
  "class_plain c = (is_printable c \<and> c \<noteq> backslash \<and> c \<noteq> CHR ''['' \<and> c \<noteq> CHR '']'' \<and> c \<noteq> CHR ''^'')"

text \<open>
  The upper end of a range: a hyphen and a character that is not the closing bracket (a
  hyphen before the closing bracket is a member).
\<close>

definition range_end :: "string \<Rightarrow> (char \<times> string) option" where
  "range_end r =
     (case r of
        d # e # r' \<Rightarrow> if d = CHR ''-'' \<and> e \<noteq> CHR '']'' then Some (e, r') else None
      | _ \<Rightarrow> None)"

definition with_range ::
  "char \<times> char \<Rightarrow> ((char \<times> char) list \<times> string) parsed
     \<Rightarrow> ((char \<times> char) list \<times> string) parsed" where
  "with_range x p =
     (case p of
        Parsed (rs, rest) \<Rightarrow> Parsed (x # rs, rest)
      | Invalid \<Rightarrow> Invalid
      | Unsupported \<Rightarrow> Unsupported)"

lemma range_end_shorter: "range_end r = Some (e, r') \<Longrightarrow> length r' < length r"
  by (auto simp: range_end_def split: list.splits if_splits)

text \<open>
  The members of a character class, up to its closing bracket, and the pattern after it. A
  range whose ends are in the wrong order is an error of the pattern.
\<close>

function class_items :: "string \<Rightarrow> ((char \<times> char) list \<times> string) parsed" where
  "class_items [] = Invalid"
| "class_items (c # r) =
     (if c = CHR '']'' then Parsed ([], r)
      else if \<not> class_plain c then Unsupported
      else
        (case range_end r of
           Some (e, r') \<Rightarrow>
             if \<not> class_plain e then Unsupported
             else if (of_char e :: nat) < of_char c then Invalid
             else with_range (c, e) (class_items r')
         | None \<Rightarrow> with_range (c, c) (class_items r)))"
  by pat_completeness auto
termination
  by (relation "measure length") (auto dest: range_end_shorter)

text \<open>
  A character class after its opening bracket; a leading \<^verbatim>\<open>^\<close> complements it. A class
  that is never closed is an error of the pattern.
\<close>

definition parse_class :: "string \<Rightarrow> (cset \<times> string) parsed" where
  "parse_class s =
     (if CHR '']'' \<notin> set s then Invalid
      else
        (let negated = (s \<noteq> [] \<and> hd s = CHR ''^'');
             body = (if negated then tl s else s)
         in case body of
              [] \<Rightarrow> Invalid
            | c # _ \<Rightarrow>
                if c = CHR '']'' then Unsupported
                else
                  (case class_items body of
                     Parsed (rs, rest) \<Rightarrow> Parsed (CSet negated rs, rest)
                   | Invalid \<Rightarrow> Invalid
                   | Unsupported \<Rightarrow> Unsupported)))"

text \<open>
  One atom, and the pattern after it: \<^verbatim>\<open>\d\<close>, an escaped character that is neither a letter
  nor a digit, a class, the dot (every character but the newline) or a literal. A backslash
  at the end and a quantifier with nothing to repeat are errors of the pattern.
\<close>

definition parse_atom :: "string \<Rightarrow> (cset \<times> string) parsed" where
  "parse_atom s =
     (case s of
        [] \<Rightarrow> Unsupported
      | c # r \<Rightarrow>
          if c = backslash then
            (case r of
               [] \<Rightarrow> Invalid
             | e # r' \<Rightarrow>
                 if e = CHR ''d'' then Parsed (CSet False [(CHR ''0'', CHR ''9'')], r')
                 else if is_printable e \<and> \<not> is_alnum e then Parsed (CSet False [(e, e)], r')
                 else Unsupported)
          else if c = CHR ''['' then parse_class r
          else if c = CHR ''.'' then Parsed (CSet True [(CHR 0x0A, CHR 0x0A)], r)
          else if c \<in> set ''*+?'' then Invalid
          else if c \<in> set ''{}()|^$]'' \<or> \<not> is_printable c then Unsupported
          else Parsed (CSet False [(c, c)], r))"

text \<open>
  An atom with its quantifier. A second quantifier character after a quantifier (lazy,
  possessive or repeated) is outside the fragment.
\<close>

definition parse_item :: "string \<Rightarrow> (item \<times> string) parsed" where
  "parse_item s =
     (case parse_atom s of
        Invalid \<Rightarrow> Invalid
      | Unsupported \<Rightarrow> Unsupported
      | Parsed (cs, r) \<Rightarrow>
          (case parse_quant r of
             Invalid \<Rightarrow> Invalid
           | Unsupported \<Rightarrow> Unsupported
           | Parsed (lo, hi, r') \<Rightarrow>
               if length r' < length r \<and> r' \<noteq> [] \<and> hd r' \<in> set ''*+?{'' then Unsupported
               else Parsed (Item cs lo hi, r')))"

lemma with_range_Parsed:
  "with_range x p = Parsed (rs, rest) \<Longrightarrow> \<exists>rs'. p = Parsed (rs', rest)"
  by (auto simp: with_range_def split: parsed.splits)

lemma class_items_shorter:
  "class_items s = Parsed (rs, rest) \<Longrightarrow> length rest < length s"
proof (induction s arbitrary: rs rest rule: class_items.induct)
  case 1
  then show ?case by simp
next
  case (2 c r)
  show ?case
  proof (cases "c = CHR '']'' \<or> \<not> class_plain c")
    case True
    with "2.prems" show ?thesis by (auto split: if_splits)
  next
    case False
    then have nb: "c \<noteq> CHR '']''" and pc: "\<not> \<not> class_plain c" by auto
    show ?thesis
    proof (cases "range_end r")
      case None
      with "2.prems" nb pc obtain rs' where "class_items r = Parsed (rs', rest)"
        by (auto dest: with_range_Parsed)
      from "2.IH"(1)[OF nb pc None this] show ?thesis by simp
    next
      case (Some a)
      obtain e r' where a: "a = (e, r')" by (cases a)
      with "2.prems" nb pc Some obtain rs' where ci: "class_items r' = Parsed (rs', rest)"
        and pe: "\<not> \<not> class_plain e" and le: "\<not> (of_char e :: nat) < of_char c"
        by (auto dest: with_range_Parsed split: if_splits)
      from "2.IH"(2)[OF nb pc Some[unfolded a] refl pe le ci] range_end_shorter[OF Some[unfolded a]]
      show ?thesis by simp
    qed
  qed
qed

lemma parse_class_shorter:
  "parse_class s = Parsed (cs, rest) \<Longrightarrow> length rest \<le> length s"
proof -
  assume a: "parse_class s = Parsed (cs, rest)"
  define negated where "negated = (s \<noteq> [] \<and> hd s = CHR ''^'')"
  define body where "body = (if negated then tl s else s)"
  have bl: "length body \<le> length s" unfolding body_def by simp
  from a obtain rs where "class_items body = Parsed (rs, rest)"
    unfolding parse_class_def Let_def negated_def[symmetric] body_def[symmetric]
    by (auto split: if_splits list.splits parsed.splits)
  from class_items_shorter[OF this] bl show ?thesis by simp
qed

lemma parse_atom_shorter:
  "parse_atom s = Parsed (cs, rest) \<Longrightarrow> length rest < length s"
  unfolding parse_atom_def
  by (auto split: list.splits if_splits dest: parse_class_shorter)

lemma parse_quant_shorter:
  "parse_quant s = Parsed (lo, hi, rest) \<Longrightarrow> length rest \<le> length s"
proof -
  have c: "length ys < length xs" if "dropWhile P xs = y # ys"
    for P and xs :: string and y ys
  proof -
    have "length (dropWhile P xs) \<le> length xs" by (rule length_dropWhile_le)
    with that show ?thesis by simp
  qed
  have c2: "length zs < length xs" if "dropWhile P xs = y # ys" "dropWhile Q ys = z # zs"
    for P Q and xs :: string and y ys z zs
    using c[OF that(1)] c[OF that(2)] by simp
  assume "parse_quant s = Parsed (lo, hi, rest)"
  then show ?thesis
    unfolding parse_quant_def Let_def
    by (auto split: list.splits if_splits dest: c c2 less_imp_le)
qed

lemma parse_item_shorter:
  "parse_item s = Parsed (it, rest) \<Longrightarrow> length rest < length s"
  unfolding parse_item_def
  by (auto split: parsed.splits if_splits dest!: parse_atom_shorter parse_quant_shorter)

text \<open>A whole pattern: items up to its end.\<close>

function parse_items :: "string \<Rightarrow> item list parsed" where
  "parse_items s =
     (if s = [] then Parsed []
      else
        (case parse_item s of
           Invalid \<Rightarrow> Invalid
         | Unsupported \<Rightarrow> Unsupported
         | Parsed (it, r) \<Rightarrow>
             (case parse_items r of
                Invalid \<Rightarrow> Invalid
              | Unsupported \<Rightarrow> Unsupported
              | Parsed its \<Rightarrow> Parsed (it # its))))"
  by pat_completeness auto
termination
  by (relation "measure length") (auto dest: parse_item_shorter)

declare parse_items.simps [simp del]

text \<open>\<^verbatim>\<open>re.compile(pattern)\<close> on the fragment.\<close>

definition re_compile :: "string \<Rightarrow> py_error + item list" where
  "re_compile pattern =
     (case parse_items pattern of
        Parsed its \<Rightarrow> Inr its
      | Invalid \<Rightarrow> Inl (ReError pattern)
      | Unsupported \<Rightarrow> Inl (OutsideFragment pattern))"

text \<open>Scenario 2's rule: the e-mail pattern of the default rule set.\<close>

definition email_rule :: string where
  "email_rule = ''[a-zA-Z0-9._%+-]+@[a-zA-Z0-9.-]+'' @ [backslash] @ ''.[a-zA-Z]{2,}''"

text \<open>Scenario 1's rule, \<^verbatim>\<open>\d{13}\<close>.\<close>

definition id_rule :: string where
  "id_rule = [backslash] @ ''d{13}''"

text \<open>The fragment as a library: \<^verbatim>\<open>re.compile\<close> and the matches \<^verbatim>\<open>pattern.sub\<close> visits.\<close>

definition py_re :: "item list re_lib" where
  "py_re = \<lparr>compile = re_compile, finditer = (\<lambda>p s. scan p 0 False s)\<rparr>"

text \<open>
  Leftmost-first, for the fragment: no match starts at a position of \<open>[p, b)\<close> (at \<open>p\<close>
  itself an empty match does not count when \<open>adv\<close> is set).
\<close>

definition no_match :: "item list \<Rightarrow> string \<Rightarrow> bool \<Rightarrow> nat \<Rightarrow> nat \<Rightarrow> bool" where
  "no_match its s adv p b =
     list_all (\<lambda>q. match_items its (drop q s) 0 (adv \<and> q = p) = None) [p..<b]"

text \<open>
  A list of spans is the leftmost-first scan of the text from \<open>p\<close> on: each span starts at
  the first position at or after the end of the span before where the pattern matches, it
  has the length the matcher chooses there, the spans do not overlap, and nothing matches
  after the last one.
\<close>

fun leftmost_first :: "item list \<Rightarrow> string \<Rightarrow> bool \<Rightarrow> nat \<Rightarrow> (nat \<times> nat) list \<Rightarrow> bool" where
  "leftmost_first its s adv p [] = no_match its s adv p (Suc (length s))"
| "leftmost_first its s adv p ((b, e) # ms) =
     (p \<le> b \<and> b \<le> e \<and> e \<le> length s \<and> no_match its s adv p b
      \<and> match_items its (drop b s) 0 (adv \<and> b = p) = Some (e - b)
      \<and> leftmost_first its s (e = b) e ms)"

subsection \<open>Inputs of the scenarios\<close>

text \<open>
  Parameters with the defaults of the class (\<open>debug_echo\<close> off, placeholder \<^verbatim>\<open>*\<close>, two
  characters revealed at each end) and the given rules.
\<close>

definition parameters_with_rules :: "string list \<Rightarrow> PatternRedactorParameters" where
  "parameters_with_rules rs =
     \<lparr>rules = rs, debug_echo = False, placeholder = DEFAULT_PLACEHOLDER,
      reveal_start = 2, reveal_end = 2\<rparr>"

text \<open>Scenario 3: two user messages, with a system and an assistant message around them.\<close>

definition scenario_3_prompt :: RequestInput where
  "scenario_3_prompt =
     \<lparr>messages = [\<lparr>content = ''be brief'', role = SYSTEM\<rparr>,
                  \<lparr>content = ''secret:123'', role = USER\<rparr>,
                  \<lparr>content = ''noted'', role = ASSISTANT\<rparr>,
                  \<lparr>content = ''public'', role = USER\<rparr>]\<rparr>"

text \<open>Scenario 4: a response with two choices that hold different texts.\<close>

definition scenario_4_response :: ResponseOutput where
  "scenario_4_response =
     \<lparr>choices = Some [\<lparr>message = Some \<lparr>content = ''id 1234567890123'', role = ASSISTANT\<rparr>\<rparr>,
                      \<lparr>message = Some \<lparr>content = ''nothing to hide'', role = ASSISTANT\<rparr>\<rparr>]\<rparr>"

section \<open>Properties of \<^verbatim>\<open>partial_mask\<close>\<close>

lemma length_str_mul: "length (str_mul s n) = nat n * length s"
  by (simp add: str_mul_def length_concat sum_list_replicate)

lemma str_mul_replicate: "str_mul ph (int n) = concat (replicate n ph)"
  by (simp add: str_mul_def)

lemma partial_mask_short:
  "int (length m) \<le> rs + re \<Longrightarrow> partial_mask rs re ph m = concat (replicate (length m) ph)"
  by (simp add: partial_mask_def str_mul_def)

lemma partial_mask_long:
  "rs + re < int (length m) \<Longrightarrow>
   partial_mask rs re ph m =
     slice_to m rs @ str_mul ph (int (length m) - (rs + re)) @ slice_from m (- re)"
  by (simp add: partial_mask_def Let_def)

text \<open>
  With at least one character revealed at the end the transform is the one the parameters
  describe: the first \<open>rs\<close> and the last \<open>re\<close> characters stay, the middle is masked.
\<close>

lemma partial_mask_reveal:
  assumes "0 \<le> rs" "0 < re" "rs + re < int (length m)"
  shows "partial_mask rs re ph m =
     take (nat rs) m @ concat (replicate (length m - nat rs - nat re) ph) @
     drop (length m - nat re) m"
proof -
  have "nat (int (length m) - (rs + re)) = length m - nat rs - nat re"
    using assms by linarith
  moreover have "nat (int (length m) - re) = length m - nat re"
    using assms by linarith
  ultimately show ?thesis
    using assms by (simp add: partial_mask_def Let_def slice_to_def slice_from_def str_mul_def)
qed

lemma partial_mask_length_preserved:
  assumes "0 \<le> rs" "0 < re" "length ph = 1"
  shows "length (partial_mask rs re ph m) = length m"
  using assms
  by (auto simp: partial_mask_def Let_def length_str_mul slice_to_def slice_from_def)

section \<open>Properties of the substitution\<close>

text \<open>
  A replacement that keeps the length of every match keeps the length of the text, when the
  spans the library reports lie in the text, in order and disjoint.
\<close>

lemma sub_spans_length:
  assumes "\<And>t. length (repl t) = length t"
  shows "spans_ok (length s) i ms \<Longrightarrow> i \<le> length s
     \<Longrightarrow> length (sub_spans repl s i ms) = length s - i"
proof (induction ms arbitrary: i)
  case Nil
  then show ?case by simp
next
  case (Cons a ms)
  obtain b e where a: "a = (b, e)" by (cases a)
  from Cons.prems a have o: "i \<le> b" "b \<le> e" "e \<le> length s" "spans_ok (length s) e ms"
    by auto
  from Cons.IH[OF o(4) o(3)] have "length (sub_spans repl s e ms) = length s - e" .
  moreover have "length (take (b - i) (drop i s)) = b - i" using o by simp
  moreover have "length (repl (take (e - b) (drop b s))) = e - b" using o by (simp add: assms)
  ultimately show ?case using o by (simp add: a)
qed

lemma mask_matches_length:
  assumes "0 \<le> rs" "0 < re" "length ph = 1"
    and "\<And>c t. spans_ok (length t) 0 (finditer E c t)"
    and "mask_matches E txt patterns rs re ph = Inr out"
  shows "length out = length txt"
proof -
  have pm: "\<And>t. length (partial_mask rs re ph t) = length t"
    using assms(1-3) by (rule partial_mask_length_preserved)
  have ps: "length (pattern_sub E (partial_mask rs re ph) c t) = length t" for c t
    unfolding pattern_sub_def using sub_spans_length[OF pm assms(4), of t c] by simp
  have "length (sub_all E (partial_mask rs re ph) cps t) = length t" for cps t
    by (induction cps arbitrary: t) (simp_all add: ps)
  with assms(5) show ?thesis by (auto simp: mask_matches_def split: sum.splits)
qed

text \<open>
  \<^verbatim>\<open>pattern.sub\<close> as modelled replaces every reported match and keeps the text between;
  replacing every match by itself gives the text back, so the matches and the gaps make up
  the whole text.
\<close>

lemma sub_spans_replace_from: "sub_spans repl s i ms = replace_from repl s i ms"
proof (induction ms arbitrary: i)
  case Nil
  show ?case by (simp add: replace_from_def last_end_def)
next
  case (Cons a ms)
  obtain b e where a: "a = (b, e)" by (cases a)
  have g: "gap_before s i ((b, e) # ms) (Suc k) = gap_before s e ms k" for k
    by (cases k) (simp_all add: gap_before_def prev_end_def)
  have m: "matched_text_at s ((b, e) # ms) (Suc k) = matched_text_at s ms k" for k
    by (simp add: matched_text_at_def)
  have l: "last_end i ((b, e) # ms) = last_end e ms"
    by (simp add: last_end_def)
  have u: "[0..<Suc (length ms)] = 0 # map Suc [0..<length ms]"
    by (simp add: upt_conv_Cons map_Suc_upt del: upt_Suc)
  have g0: "gap_before s i ((b, e) # ms) 0 = take (b - i) (drop i s)"
    by (simp add: gap_before_def prev_end_def)
  have m0: "matched_text_at s ((b, e) # ms) 0 = take (e - b) (drop b s)"
    by (simp add: matched_text_at_def)
  have "replace_from repl s i ((b, e) # ms) =
          take (b - i) (drop i s) @ repl (take (e - b) (drop b s)) @ replace_from repl s e ms"
    unfolding replace_from_def l
    by (simp add: u g m g0 m0 o_def del: upt_Suc)
  with Cons.IH[of e] show ?case by (simp add: a)
qed

lemma pattern_sub_replace_all:
  "pattern_sub E repl c s = replace_all repl s (finditer E c s)"
  by (simp add: pattern_sub_def replace_all_def sub_spans_replace_from)

lemma sub_spans_identity:
  "spans_ok (length s) i ms \<Longrightarrow> sub_spans (\<lambda>t. t) s i ms = drop i s"
proof (induction ms arbitrary: i)
  case Nil
  then show ?case by simp
next
  case (Cons a ms)
  obtain b e where a: "a = (b, e)" by (cases a)
  from Cons.prems a have o: "i \<le> b" "b \<le> e" "e \<le> length s" "spans_ok (length s) e ms"
    by auto
  have 1: "take (e - b) (drop b s) @ drop e s = drop b s"
    using o by (metis append_take_drop_id drop_drop le_add_diff_inverse2)
  have 2: "take (b - i) (drop i s) @ drop b s = drop i s"
    using o by (metis append_take_drop_id drop_drop le_add_diff_inverse2)
  from Cons.IH[OF o(4)] 1 2 show ?case by (simp add: a)
qed

lemma replace_all_identity:
  "spans_ok (length s) 0 ms \<Longrightarrow> replace_all (\<lambda>t. t) s ms = s"
  using sub_spans_identity[of s 0 ms] by (simp add: replace_all_def sub_spans_replace_from[symmetric])

lemma sub_all_foldl:
  "sub_all E repl cs s = foldl (\<lambda>t c. replace_all repl t (finditer E c t)) s cs"
  by (induction cs arbitrary: s) (simp_all add: pattern_sub_replace_all)

lemma sub_spans_empty_text:
  "repl [] = [] \<Longrightarrow> sub_spans repl [] i ms = []"
  by (induction ms arbitrary: i) auto

lemma sub_all_empty_text:
  "repl [] = [] \<Longrightarrow> sub_all E repl cps [] = []"
  by (induction cps) (simp_all add: pattern_sub_def sub_spans_empty_text)

lemma mask_matches_returns:
  "compile_patterns E patterns = Inr cps
     \<Longrightarrow> \<exists>out. mask_matches E txt patterns rs re ph = Inr out"
  by (simp add: mask_matches_def)

text \<open>
  One pattern with one match at \<open>(b, e)\<close>: the text before and after the match is kept, and
  the match is replaced by \<^verbatim>\<open>partial_mask\<close> of the matched text.
\<close>

lemma mask_matches_single_match:
  assumes "compile E p = Inr c" and "finditer E c s = [(b, e)]"
  shows "mask_matches E s [p] rs re ph =
           Inr (take b s @ partial_mask rs re ph (take (e - b) (drop b s)) @ drop e s)"
  using assms by (simp add: mask_matches_def pattern_sub_def)

text \<open>
  The spans of the concrete fragment lie in the text, in order and disjoint, so with at
  least one character revealed at the end it keeps the length of every text.
\<close>

lemma spans_ok_earlier: "spans_ok n i ms \<Longrightarrow> j \<le> i \<Longrightarrow> spans_ok n j ms"
  by (cases ms) auto

lemma scan_spans_ok: "spans_ok (pos + length rest) pos (scan its pos adv rest)"
proof (induction its pos adv rest rule: scan.induct)
  case (1 its pos must_advance rest)
  show ?case
  proof (cases "match_items its rest 0 must_advance")
    case None
    show ?thesis
    proof (cases rest)
      case Nil
      with None show ?thesis by simp
    next
      case (Cons c cs)
      from "1.IH"(1)[OF None Cons]
      have "spans_ok (pos + 1 + length cs) (pos + 1) (scan its (pos + 1) False cs)" .
      then have "spans_ok (pos + length rest) pos (scan its (pos + 1) False cs)"
        using Cons by (simp add: spans_ok_earlier)
      with None Cons show ?thesis by simp
    qed
  next
    case (Some k)
    from match_items_bounds[OF Some] have k: "k \<le> length rest" by simp
    from "1.IH"(2)[OF Some]
    have "spans_ok (pos + k + length (drop k rest)) (pos + k)
            (scan its (pos + k) (k = 0) (drop k rest))" .
    with k have "spans_ok (pos + length rest) (pos + k) (scan its (pos + k) (k = 0) (drop k rest))"
      by (simp add: add.assoc)
    with Some k show ?thesis by simp
  qed
qed

lemma py_re_spans_ok: "spans_ok (length t) 0 (finditer py_re c t)"
  using scan_spans_ok[of 0 t c False] by (simp add: py_re_def)

lemma py_re_length_preserved:
  assumes "0 \<le> rs" "0 < re" "length ph = 1"
    and "mask_matches py_re s patterns rs re ph = Inr out"
  shows "length out = length s"
  using assms(1-3) py_re_spans_ok assms(4) by (rule mask_matches_length)

text \<open>The scan of the fragment is leftmost-first.\<close>

lemma leftmost_first_step:
  assumes "leftmost_first its s False (Suc p) ms"
    and "match_items its (drop p s) 0 adv = None" and "p < length s"
  shows "leftmost_first its s adv p ms"
proof (cases ms)
  case Nil
  have "[p..<Suc (length s)] = p # [Suc p..<Suc (length s)]"
    using assms(3) by (simp add: upt_conv_Cons del: upt_Suc)
  with assms Nil show ?thesis
    by (simp add: no_match_def list_all_iff del: upt_Suc)
next
  case (Cons a ms')
  obtain b e where a: "a = (b, e)" by (cases a)
  from assms(1) Cons a have b: "Suc p \<le> b" by simp
  have "[p..<b] = p # [Suc p..<b]" using b by (simp add: upt_conv_Cons)
  with assms Cons a b show ?thesis
    by (auto simp: no_match_def list_all_iff)
qed

lemma scan_leftmost_first:
  "pos \<le> length s \<Longrightarrow> rest = drop pos s \<Longrightarrow> leftmost_first its s adv pos (scan its pos adv rest)"
proof (induction its pos adv rest rule: scan.induct)
  case (1 its pos must_advance rest)
  show ?case
  proof (cases "match_items its rest 0 must_advance")
    case None
    show ?thesis
    proof (cases rest)
      case Nil
      with "1.prems" have "pos = length s" by simp
      with None Nil "1.prems" show ?thesis by (simp add: no_match_def)
    next
      case (Cons c cs)
      from Cons "1.prems" have ne: "drop pos s = c # cs" by simp
      then have p: "pos < length s" by (metis drop_eq_Nil list.distinct(1) not_le_imp_less)
      from ne have cs: "cs = drop (pos + 1) s"
        by (metis Suc_eq_plus1 drop_Suc list.sel(3) tl_drop)
      from "1.IH"(1)[OF None Cons _ cs] p
      have "leftmost_first its s False (Suc pos) (scan its (pos + 1) False cs)" by simp
      from leftmost_first_step[OF this _ p] None "1.prems"(2)
      have "leftmost_first its s must_advance pos (scan its (pos + 1) False cs)" by simp
      with None Cons show ?thesis by simp
    qed
  next
    case (Some k)
    from match_items_bounds[OF Some] have k: "k \<le> length rest" "must_advance \<longrightarrow> 0 < k" by auto
    with "1.prems" have pk: "pos + k \<le> length s" by simp
    have d: "drop k rest = drop (pos + k) s" using "1.prems"(2) by (simp add: add.commute)
    from "1.IH"(2)[OF Some pk d]
    have "leftmost_first its s (k = 0) (pos + k) (scan its (pos + k) (k = 0) (drop k rest))" .
    with Some pk "1.prems"(2) show ?thesis by (simp add: no_match_def)
  qed
qed

lemma py_re_leftmost_first: "leftmost_first its s False 0 (finditer py_re its s)"
  using scan_leftmost_first[of 0 s s its False] by (simp add: py_re_def)

text \<open>Scenario 1: thirteen digits, two revealed at each end.\<close>

lemma scenario_1:
  "mask_matches py_re ''my id is 1234567890123'' [id_rule] 2 2 ''*'' =
     Inr ''my id is 12*********23''"
  by code_simp

text \<open>
  The order of the rules is significant: the second rule sees the placeholders that the
  first one wrote, and no longer matches.
\<close>

lemma order_of_rules_matters:
  "mask_matches py_re ''abc'' [''bc'', ''ab''] 2 2 ''*'' = Inr ''a**''
   \<and> mask_matches py_re ''abc'' [''ab'', ''bc''] 2 2 ''*'' = Inr ''**c''"
  by code_simp

section \<open>Compiling the rules\<close>

lemma compile_patterns_finditer_update:
  "compile_patterns (E\<lparr>finditer := f\<rparr>) ps = compile_patterns E ps"
  by (induction ps) (simp_all split: sum.splits)

lemma compile_patterns_first_failure:
  "compile_patterns E good = Inr cps \<Longrightarrow> compile E q = Inl err
     \<Longrightarrow> compile_patterns E (good @ q # rest) = Inl err"
  by (induction good arbitrary: cps) (auto split: sum.splits)

lemma rejected_rule_split:
  "p \<in> set ps \<Longrightarrow> compile E p = Inl err
     \<Longrightarrow> \<exists>good q rest err' cps. ps = good @ q # rest \<and> compile_patterns E good = Inr cps
           \<and> compile E q = Inl err'"
proof (induction ps)
  case Nil
  then show ?case by simp
next
  case (Cons a ps)
  show ?case
  proof (cases "compile E a")
    case (Inl e)
    have "a # ps = [] @ a # ps \<and> compile_patterns E [] = Inr [] \<and> compile E a = Inl e"
      using Inl by simp
    then show ?thesis by blast
  next
    case (Inr c)
    with Cons.prems have "p \<in> set ps" by auto
    from Cons.IH[OF this Cons.prems(2)]
    obtain good q rest err' cps where g: "ps = good @ q # rest"
      "compile_patterns E good = Inr cps" "compile E q = Inl err'" by blast
    have "a # ps = (a # good) @ q # rest \<and> compile_patterns E (a # good) = Inr (c # cps)
          \<and> compile E q = Inl err'"
      using g Inr by simp
    then show ?thesis by blast
  qed
qed

section \<open>Properties of \<^verbatim>\<open>process\<close>\<close>

lemma length_overwrite_first_user [simp]:
  "length (overwrite_first_user t ms) = length ms"
  by (induction ms) simp_all

lemma overwrite_first_user_nth:
  "i < length ms \<Longrightarrow>
   overwrite_first_user t ms ! i =
     (if role (ms ! i) = USER \<and> (\<forall>j<i. role (ms ! j) \<noteq> USER)
      then (ms ! i)\<lparr>content := t\<rparr> else ms ! i)"
proof (induction ms arbitrary: i)
  case Nil
  then show ?case by simp
next
  case (Cons m ms)
  show ?case
  proof (cases i)
    case 0
    then show ?thesis by simp
  next
    case (Suc k)
    with Cons.prems have k: "k < length ms" by simp
    show ?thesis
    proof (cases "role m = USER")
      case True
      then have "\<not> (\<forall>j<i. role ((m # ms) ! j) \<noteq> USER)" using Suc by auto
      with True Suc show ?thesis by auto
    next
      case False
      have "(\<forall>j<Suc k. role ((m # ms) ! j) \<noteq> USER) = (\<forall>j<k. role (ms ! j) \<noteq> USER)"
        using False by (auto simp: less_Suc_eq_0_disj)
      with False Suc Cons.IH[OF k] show ?thesis by auto
    qed
  qed
qed

lemma process_Inr:
  assumes "process E prompt response parameters = Inr (prompt', response', result)"
  shows "\<exists>masked.
     mask_matches E (user_input_of prompt) (rules parameters) (reveal_start parameters)
        (reveal_end parameters) (placeholder parameters) = Inr masked
     \<and> messages prompt' = overwrite_first_user masked (messages prompt) @
          (if debug_echo parameters then [\<lparr>content = masked, role = SYSTEM\<rparr>] else [])
     \<and> mask_response E response parameters = Inr response'"
  using assms
  by (auto simp: process_def Let_def split: sum.splits if_splits)

lemma process_returns:
  assumes "mask_matches E (user_input_of prompt) (rules parameters) (reveal_start parameters)
        (reveal_end parameters) (placeholder parameters) = Inr masked"
    and "mask_response E response parameters = Inr response'"
  shows "\<exists>prompt' result. process E prompt response parameters = Inr (prompt', response', result)"
  using assms by (simp add: process_def Let_def)

lemma write_choices_Inr:
  "write_choices mo cs = Inr cs' \<Longrightarrow> cs \<noteq> [] \<Longrightarrow>
   \<exists>t. mo = Some t \<and> length cs' = length cs
      \<and> (\<forall>ch\<in>set cs'. \<exists>m. message ch = Some m \<and> content m = t)"
proof (induction cs arbitrary: cs')
  case Nil
  then show ?case by simp
next
  case (Cons c cs)
  from Cons.prems(1) obtain t m cs1 where
    mo: "mo = Some t" and mc: "message c = Some m" and w: "write_choices mo cs = Inr cs1"
    and cs': "cs' = c\<lparr>message := Some (m\<lparr>content := t\<rparr>)\<rparr> # cs1"
    by (auto split: option.splits sum.splits)
  show ?case
  proof (cases "cs = []")
    case True
    with w have "cs1 = []" by simp
    with mo cs' True show ?thesis by simp
  next
    case False
    from Cons.IH[OF w False] mo have "length cs1 = length cs"
      and "\<forall>ch\<in>set cs1. \<exists>m. message ch = Some m \<and> content m = t" by auto
    with mo cs' show ?thesis by simp
  qed
qed

lemma write_choices_returns:
  "list_all (\<lambda>ch. message ch \<noteq> None) cs \<Longrightarrow> \<exists>cs'. write_choices (Some t) cs = Inr cs'"
  by (induction cs) auto

text \<open>
  The deficient responses that \<^verbatim>\<open>process\<close> does survive: no response at all, and a response
  whose list of choices is empty (the loop then never reads the unassigned variable).
\<close>

lemma mask_response_absent: "mask_response E None parameters = Inr None"
  by (simp add: mask_response_def)

lemma mask_response_no_choice:
  "choices r = Some [] \<Longrightarrow> mask_response E (Some r) parameters = Inr (Some r)"
  by (simp add: mask_response_def extract_and_mask_def)

section \<open>The claims\<close>

subsection \<open>Length of a replacement\<close>

text \<open>
  Claim C1. Every replacement is as long as the match it replaces, for non-negative
  \<open>reveal_start\<close> and \<open>reveal_end\<close> and a placeholder of one character. The code breaks this
  with \<open>reveal_end = 0\<close>: for the thirteen digits of scenario 1, \<open>reveal_start = 2\<close> and the
  placeholder \<^verbatim>\<open>*\<close> the replacement has 26 characters, and the text grows by 13.
\<close>

theorem C1_reveal_end_zero_grows:
  "length (partial_mask 2 0 ''*'' ''1234567890123'') = 26
   \<and> length ''1234567890123'' = 13
   \<and> mask_matches py_re ''my id is 1234567890123'' [id_rule] 2 0 ''*'' =
       Inr ''my id is 12***********1234567890123''"
  by code_simp

subsection \<open>What is revealed\<close>

text \<open>
  Claim C2. A match longer than \<open>reveal_start + reveal_end\<close> is replaced by its first
  \<open>reveal_start\<close> characters, placeholders for the middle, and its last \<open>reveal_end\<close>
  characters; with both counts 0 and the e-mail rule, \<^verbatim>\<open>contact a@b.com now\<close> should become
  \<^verbatim>\<open>contact ******* now\<close>. The code returns the seven placeholders followed by the address
  itself.
\<close>

theorem C2_scenario_2_keeps_address:
  "mask_matches py_re ''contact a@b.com now'' [email_rule] 0 0 ''*'' =
     Inr ''contact *******a@b.com now''"
  by code_simp

text \<open>
  Claim C3. With \<open>reveal_end = 0\<close> and a match longer than \<open>reveal_start\<close>, \<^verbatim>\<open>partial_mask\<close>
  returns \<^verbatim>\<open>matched_text[:reveal_start]\<close>, then one placeholder for each of the other
  \<open>L - reveal_start\<close> characters, then the whole match again, because \<^verbatim>\<open>matched_text[-0:]\<close>
  is the whole string: the matched text is the tail of the replacement. For a non-negative
  \<open>reveal_start\<close> the first part is the first \<open>reveal_start\<close> characters of the match and the
  replacement has \<open>reveal_start + (L - reveal_start) * len(placeholder) + L\<close> characters,
  which is \<open>2 * L\<close> for a placeholder of one character.
\<close>

theorem C3_reveal_end_zero:
  assumes "rs < int (length m)"
  shows "partial_mask rs 0 ph m =
           slice_to m rs @ concat (replicate (nat (int (length m) - rs)) ph) @ m
     \<and> drop (length (partial_mask rs 0 ph m) - length m) (partial_mask rs 0 ph m) = m
     \<and> (0 \<le> rs \<longrightarrow>
          slice_to m rs = take (nat rs) m
          \<and> length (partial_mask rs 0 ph m) =
              nat rs + (length m - nat rs) * length ph + length m
          \<and> (length ph = 1 \<longrightarrow> length (partial_mask rs 0 ph m) = 2 * length m))"
proof -
  have e: "partial_mask rs 0 ph m =
             slice_to m rs @ concat (replicate (nat (int (length m) - rs)) ph) @ m"
    using assms by (simp add: partial_mask_def Let_def slice_from_def str_mul_def)
  have d: "drop (length (partial_mask rs 0 ph m) - length m) (partial_mask rs 0 ph m) = m"
    unfolding e by simp
  have p: "slice_to m rs = take (nat rs) m
          \<and> length (partial_mask rs 0 ph m) =
              nat rs + (length m - nat rs) * length ph + length m
          \<and> (length ph = 1 \<longrightarrow> length (partial_mask rs 0 ph m) = 2 * length m)"
    if nn: "0 \<le> rs"
  proof -
    have k: "nat rs < length m" using assms nn by linarith
    have n: "nat (int (length m) - rs) = length m - nat rs"
      using nn by (simp add: nat_diff_distrib)
    have s: "slice_to m rs = take (nat rs) m" using nn by (simp add: slice_to_def)
    have l: "length (partial_mask rs 0 ph m) =
               nat rs + (length m - nat rs) * length ph + length m"
      unfolding e s n using k by (simp add: length_concat sum_list_replicate min_def)
    have "length ph = 1 \<longrightarrow> length (partial_mask rs 0 ph m) = 2 * length m"
      unfolding l using k by auto
    with s l show ?thesis by blast
  qed
  from e d p show ?thesis by blast
qed

text \<open>
  At the thirteen digits of scenario 1 with \<open>reveal_start = 2\<close>: 26 characters come back,
  the last 13 of them the digits themselves.
\<close>

theorem C3_reveal_end_zero_witness:
  "(2::int) < int (length ''1234567890123'')
   \<and> partial_mask 2 0 ''*'' ''1234567890123'' = ''12***********1234567890123''
   \<and> length (partial_mask 2 0 ''*'' ''1234567890123'') = 2 * length ''1234567890123''"
proof -
  have h: "(2::int) < int (length ''1234567890123'')" by simp
  have v: "slice_to ''1234567890123'' 2 @
             concat (replicate (nat (int (length ''1234567890123'') - 2)) ''*'') @
             ''1234567890123''
           = ''12***********1234567890123''"
    by code_simp
  from C3_reveal_end_zero [OF h, of "''*''"]
  have a: "partial_mask 2 0 ''*'' ''1234567890123'' = ''12***********1234567890123''"
    and b: "length (partial_mask 2 0 ''*'' ''1234567890123'') = 2 * length ''1234567890123''"
    unfolding v by simp_all
  from h a b show ?thesis by blast
qed

text \<open>
  The length is not \<open>2 * L\<close> for every placeholder: one of two characters gives 6
  characters for a match of 2.
\<close>

theorem C3_counterexample:
  "partial_mask 0 0 ''XX'' ''ab'' = ''XXXXab''
   \<and> length (partial_mask 0 0 ''XX'' ''ab'') = 6 \<and> 2 * length ''ab'' = (4::nat)"
  by code_simp

subsection \<open>Short matches\<close>

text \<open>
  Claim C4. A match that is not longer than \<open>reveal_start + reveal_end\<close> is replaced by the
  placeholder repeated once for each of its characters; nothing of the match is revealed
  (a different match of the same length gets the same replacement). For non-negative counts
  this is the case whenever one of the two counts alone reaches the length of the match.
  In \<^verbatim>\<open>mask_matches\<close> with one pattern and one such match, the text around the match is
  kept and the match becomes placeholders.
\<close>

theorem C4_full_mask:
  "(int (length m) \<le> rs + re \<longrightarrow>
      partial_mask rs re ph m = concat (replicate (length m) ph)
      \<and> (\<forall>m'. length m' = length m \<longrightarrow> partial_mask rs re ph m' = partial_mask rs re ph m))
   \<and> (0 \<le> re \<and> int (length m) \<le> rs \<longrightarrow>
        partial_mask rs re ph m = concat (replicate (length m) ph))
   \<and> (0 \<le> rs \<and> int (length m) \<le> re \<longrightarrow>
        partial_mask rs re ph m = concat (replicate (length m) ph))
   \<and> (compile E p = Inr c \<and> finditer E c s = [(b, e)] \<and> b \<le> e \<and> e \<le> length s
        \<and> int (e - b) \<le> rs + re \<longrightarrow>
        mask_matches E s [p] rs re ph =
          Inr (take b s @ concat (replicate (e - b) ph) @ drop e s))"
proof -
  have "mask_matches E s [p] rs re ph =
          Inr (take b s @ concat (replicate (e - b) ph) @ drop e s)"
    if a: "compile E p = Inr c" "finditer E c s = [(b, e)]" "b \<le> e" "e \<le> length s"
      "int (e - b) \<le> rs + re"
  proof -
    have l: "length (take (e - b) (drop b s)) = e - b" using a(3,4) by simp
    have "partial_mask rs re ph (take (e - b) (drop b s)) = concat (replicate (e - b) ph)"
      using partial_mask_short[of "take (e - b) (drop b s)" rs re ph] a(5) unfolding l by simp
    with mask_matches_single_match[OF a(1,2)] show ?thesis by simp
  qed
  then have d: "compile E p = Inr c \<and> finditer E c s = [(b, e)] \<and> b \<le> e \<and> e \<le> length s
        \<and> int (e - b) \<le> rs + re \<longrightarrow>
        mask_matches E s [p] rs re ph =
          Inr (take b s @ concat (replicate (e - b) ph) @ drop e s)"
    by blast
  have a: "int (length m) \<le> rs + re \<longrightarrow>
      partial_mask rs re ph m = concat (replicate (length m) ph)
      \<and> (\<forall>m'. length m' = length m \<longrightarrow> partial_mask rs re ph m' = partial_mask rs re ph m)"
    by (simp add: partial_mask_short)
  have b: "0 \<le> re \<and> int (length m) \<le> rs \<longrightarrow>
        partial_mask rs re ph m = concat (replicate (length m) ph)"
    by (simp add: partial_mask_short)
  have c: "0 \<le> rs \<and> int (length m) \<le> re \<longrightarrow>
        partial_mask rs re ph m = concat (replicate (length m) ph)"
    by (simp add: partial_mask_short)
  from a b c d show ?thesis by (intro conjI)
qed

text \<open>
  Four characters: under the default counts, under one count that alone reaches the
  length, and as the match of \<^verbatim>\<open>\d{4}\<close> in a text.
\<close>

theorem C4_full_mask_witness:
  "int (length ''abcd'') \<le> 2 + 2 \<and> partial_mask 2 2 ''*'' ''abcd'' = ''****''
   \<and> partial_mask 2 2 ''*'' ''wxyz'' = partial_mask 2 2 ''*'' ''abcd''
   \<and> partial_mask 9 0 ''*'' ''abcd'' = ''****''
   \<and> partial_mask 0 4 ''*'' ''abcd'' = ''****''
   \<and> compile py_re (backslash # ''d{4}'') = Inr [Item (CSet False [(CHR ''0'', CHR ''9'')]) 4 (Some 4)]
   \<and> finditer py_re [Item (CSet False [(CHR ''0'', CHR ''9'')]) 4 (Some 4)] ''pin 1234 ok'' = [(4, 8)]
   \<and> mask_matches py_re ''pin 1234 ok'' [backslash # ''d{4}''] 2 2 ''*'' = Inr ''pin **** ok''"
proof -
  have h: "int (length ''abcd'') \<le> 2 + 2" by simp
  have r: "concat (replicate (length ''abcd'') ''*'') = ''****''" by code_simp
  note p1 = C4_full_mask [THEN conjunct1]
  note p2 = C4_full_mask [THEN conjunct2, THEN conjunct1]
  note p3 = C4_full_mask [THEN conjunct2, THEN conjunct2, THEN conjunct1]
  note p4 = C4_full_mask [THEN conjunct2, THEN conjunct2, THEN conjunct2]
  from p1 [of "''abcd''" 2 2 "''*''"] h
  have a: "partial_mask 2 2 ''*'' ''abcd'' = ''****''"
    and b: "partial_mask 2 2 ''*'' ''wxyz'' = partial_mask 2 2 ''*'' ''abcd''"
    unfolding r by simp_all
  from p2 [of 0 "''abcd''" 9 "''*''"]
  have c: "partial_mask 9 0 ''*'' ''abcd'' = ''****''" unfolding r by simp
  from p3 [of 0 "''abcd''" 4 "''*''"]
  have d: "partial_mask 0 4 ''*'' ''abcd'' = ''****''" unfolding r by simp
  have k1: "compile py_re (backslash # ''d{4}'') =
              Inr [Item (CSet False [(CHR ''0'', CHR ''9'')]) 4 (Some 4)]"
    by code_simp
  have k2: "finditer py_re [Item (CSet False [(CHR ''0'', CHR ''9'')]) 4 (Some 4)] ''pin 1234 ok''
              = [(4, 8)]"
    by code_simp
  have v: "take 4 ''pin 1234 ok'' @ concat (replicate (8 - 4) ''*'') @ drop 8 ''pin 1234 ok''
             = ''pin **** ok''"
    by code_simp
  from p4 [of py_re "backslash # ''d{4}''" _ "''pin 1234 ok''" 4 8 2 2 "''*''"] k1 k2
  have f: "mask_matches py_re ''pin 1234 ok'' [backslash # ''d{4}''] 2 2 ''*'' = Inr ''pin **** ok''"
    unfolding v by simp
  from h a b c d k1 k2 f show ?thesis by blast
qed

subsection \<open>Order of the patterns\<close>

text \<open>
  Claim C5. The patterns are applied in list order, each on the text the one before it
  produced: masking with \<open>p # rest\<close> is masking, with \<open>rest\<close>, the text in which the
  matches of \<open>p\<close> have been replaced (a pattern that does not compile raises its error
  instead), and with patterns that compile the result is the fold, from left to right, of
  the substitutions. One substitution replaces every match that the library reports and
  keeps the text between the matches; for spans in order and disjoint the matches and the
  gaps make up the whole text. The matches the fragment reports are in order, disjoint and
  leftmost-first, so two addresses in one text are both masked, and \<^verbatim>\<open>aa\<close> in five
  \<^verbatim>\<open>a\<close> matches twice and leaves the fifth.
\<close>

theorem C5_patterns_in_order:
  "mask_matches E text (p # rest) rs re ph =
     (case compile E p of
        Inl err \<Rightarrow> Inl err
      | Inr c \<Rightarrow> mask_matches E (pattern_sub E (partial_mask rs re ph) c text) rest rs re ph)
   \<and> (compile_patterns E patterns = Inr cs \<longrightarrow>
        mask_matches E text patterns rs re ph =
          Inr (foldl (\<lambda>t c. replace_all (partial_mask rs re ph) t (finditer E c t)) text cs))
   \<and> pattern_sub E repl c s = replace_all repl s (finditer E c s)
   \<and> (spans_ok (length s) 0 (finditer E c s) \<longrightarrow>
        replace_all (\<lambda>t. t) s (finditer E c s) = s)
   \<and> spans_ok (length s) 0 (finditer py_re its s)
   \<and> leftmost_first its s False 0 (finditer py_re its s)
   \<and> mask_matches py_re ''a@b.com, c@d.org'' [email_rule] 2 2 ''*'' = Inr ''a@***om, c@***rg''
   \<and> mask_matches py_re ''aaaaa'' [''aa''] 2 2 ''*'' = Inr ''****a''"
proof -
  have 1: "mask_matches E text (p # rest) rs re ph =
     (case compile E p of
        Inl err \<Rightarrow> Inl err
      | Inr c \<Rightarrow> mask_matches E (pattern_sub E (partial_mask rs re ph) c text) rest rs re ph)"
    by (simp add: mask_matches_def split: sum.splits)
  have 2: "compile_patterns E patterns = Inr cs \<longrightarrow>
        mask_matches E text patterns rs re ph =
          Inr (foldl (\<lambda>t c. replace_all (partial_mask rs re ph) t (finditer E c t)) text cs)"
    by (simp add: mask_matches_def sub_all_foldl)
  have 3: "pattern_sub E repl c s = replace_all repl s (finditer E c s)"
    by (rule pattern_sub_replace_all)
  have 4: "spans_ok (length s) 0 (finditer E c s) \<longrightarrow>
        replace_all (\<lambda>t. t) s (finditer E c s) = s"
    by (simp add: replace_all_identity)
  have 5: "spans_ok (length s) 0 (finditer py_re its s)" by (rule py_re_spans_ok)
  have 6: "leftmost_first its s False 0 (finditer py_re its s)" by (rule py_re_leftmost_first)
  have 7: "mask_matches py_re ''a@b.com, c@d.org'' [email_rule] 2 2 ''*'' = Inr ''a@***om, c@***rg''"
    by code_simp
  have 8: "mask_matches py_re ''aaaaa'' [''aa''] 2 2 ''*'' = Inr ''****a''"
    by code_simp
  from 1 2 3 4 5 6 7 8 show ?thesis by (intro conjI)
qed

text \<open>
  Two rules on a text where the first matches twice: both matches are replaced, and the
  second rule works on the result.
\<close>

theorem C5_patterns_in_order_witness:
  "compile_patterns py_re [''a+'', ''b''] =
     Inr [[Item (CSet False [(CHR ''a'', CHR ''a'')]) 1 None],
          [Item (CSet False [(CHR ''b'', CHR ''b'')]) 1 (Some 1)]]
   \<and> finditer py_re [Item (CSet False [(CHR ''a'', CHR ''a'')]) 1 None] ''aa b aaa'' = [(0, 2), (5, 8)]
   \<and> spans_ok (length ''aa b aaa'') 0 [(0, 2), (5, 8)]
   \<and> replace_all (\<lambda>t. t) ''aa b aaa'' [(0, 2), (5, 8)] = ''aa b aaa''
   \<and> replace_all (partial_mask 1 1 ''*'') ''aa b aaa'' [(0, 2), (5, 8)] = ''** b a*a''
   \<and> mask_matches py_re ''aa b aaa'' [''a+'', ''b''] 1 1 ''*'' = Inr ''** * a*a''"
proof -
  let ?A = "[Item (CSet False [(CHR ''a'', CHR ''a'')]) 1 None]"
  let ?B = "[Item (CSet False [(CHR ''b'', CHR ''b'')]) 1 (Some 1)]"
  note c5 = C5_patterns_in_order [of py_re "''aa b aaa''" _ _ 1 1 "''*''" "[''a+'', ''b'']" "[?A, ?B]"
       "\<lambda>t. t" ?A "''aa b aaa''"]
  have h1: "compile_patterns py_re [''a+'', ''b''] = Inr [?A, ?B]" by code_simp
  have h2: "finditer py_re ?A ''aa b aaa'' = [(0, 2), (5, 8)]" by code_simp
  have h3: "spans_ok (length ''aa b aaa'') 0 [(0, 2), (5, 8)]" by simp
  have v1: "replace_all (partial_mask 1 1 ''*'') ''aa b aaa'' [(0, 2), (5, 8)] = ''** b a*a''"
    by code_simp
  have v2: "foldl (\<lambda>t c. replace_all (partial_mask 1 1 ''*'') t (finditer py_re c t))
              ''aa b aaa'' [?A, ?B] = ''** * a*a''"
    by code_simp
  have a: "mask_matches py_re ''aa b aaa'' [''a+'', ''b''] 1 1 ''*'' = Inr ''** * a*a''"
    using c5 [THEN conjunct2, THEN conjunct1, rule_format, OF h1] unfolding v2 .
  have h3': "spans_ok (length ''aa b aaa'') 0 (finditer py_re ?A ''aa b aaa'')"
    unfolding h2 by (rule h3)
  have b: "replace_all (\<lambda>t. t) ''aa b aaa'' [(0, 2), (5, 8)] = ''aa b aaa''"
    using c5 [THEN conjunct2, THEN conjunct2, THEN conjunct2, THEN conjunct1, rule_format, OF h3']
    unfolding h2 .
  from h1 h2 h3 b v1 a show ?thesis by (intro conjI)
qed

subsection \<open>The request\<close>

text \<open>
  Claim C6. \<^verbatim>\<open>process\<close> masks the contents of all user messages joined by one space, and
  writes the masked text into the first user message only: every other message, user or
  not, keeps its content, and every message keeps its role (\<open>debug_echo\<close> appends one more
  message at the end). Without a response, and with rules that compile, \<^verbatim>\<open>process\<close> returns.
\<close>

theorem C6_first_user_message_only:
  "(compile_patterns E (rules parameters) = Inr cps \<longrightarrow>
      (\<exists>prompt' result. process E prompt None parameters = Inr (prompt', None, result)))
   \<and> (process E prompt response parameters = Inr (prompt', response', result) \<longrightarrow>
      (\<exists>masked.
         mask_matches E
           (str_join '' '' (map content (filter (\<lambda>m. role m = USER) (messages prompt))))
           (rules parameters) (reveal_start parameters) (reveal_end parameters)
           (placeholder parameters) = Inr masked
         \<and> length (messages prompt') =
             length (messages prompt) + (if debug_echo parameters then 1 else 0)
         \<and> (\<forall>i<length (messages prompt).
               role (messages prompt' ! i) = role (messages prompt ! i)
               \<and> content (messages prompt' ! i) =
                   (if role (messages prompt ! i) = USER
                       \<and> (\<forall>j<i. role (messages prompt ! j) \<noteq> USER)
                    then masked else content (messages prompt ! i)))))"
proof (intro conjI impI)
  assume c: "compile_patterns E (rules parameters) = Inr cps"
  from mask_matches_returns[OF c] obtain out where
    "mask_matches E (user_input_of prompt) (rules parameters) (reveal_start parameters)
        (reveal_end parameters) (placeholder parameters) = Inr out" by blast
  moreover have "mask_response E None parameters = Inr None" by (rule mask_response_absent)
  ultimately show "\<exists>prompt' result. process E prompt None parameters = Inr (prompt', None, result)"
    by (rule process_returns)
next
  assume p: "process E prompt response parameters = Inr (prompt', response', result)"
  from process_Inr[OF p] obtain masked where
    m: "mask_matches E (user_input_of prompt) (rules parameters) (reveal_start parameters)
        (reveal_end parameters) (placeholder parameters) = Inr masked"
    and ms: "messages prompt' = overwrite_first_user masked (messages prompt) @
          (if debug_echo parameters then [\<lparr>content = masked, role = SYSTEM\<rparr>] else [])"
    by blast
  have l: "length (messages prompt') =
             length (messages prompt) + (if debug_echo parameters then 1 else 0)"
    unfolding ms by simp
  have n: "role (messages prompt' ! i) = role (messages prompt ! i)
        \<and> content (messages prompt' ! i) =
             (if role (messages prompt ! i) = USER \<and> (\<forall>j<i. role (messages prompt ! j) \<noteq> USER)
              then masked else content (messages prompt ! i))"
    if "i < length (messages prompt)" for i
  proof -
    have "messages prompt' ! i = overwrite_first_user masked (messages prompt) ! i"
      unfolding ms using that by (simp add: nth_append)
    then show ?thesis using overwrite_first_user_nth[OF that, of masked] by auto
  qed
  from m l n show "\<exists>masked.
         mask_matches E
           (str_join '' '' (map content (filter (\<lambda>m. role m = USER) (messages prompt))))
           (rules parameters) (reveal_start parameters) (reveal_end parameters)
           (placeholder parameters) = Inr masked
         \<and> length (messages prompt') =
             length (messages prompt) + (if debug_echo parameters then 1 else 0)
         \<and> (\<forall>i<length (messages prompt).
               role (messages prompt' ! i) = role (messages prompt ! i)
               \<and> content (messages prompt' ! i) =
                   (if role (messages prompt ! i) = USER
                       \<and> (\<forall>j<i. role (messages prompt ! j) \<noteq> USER)
                    then masked else content (messages prompt ! i)))"
    unfolding user_input_of_def by blast
qed

text \<open>
  Scenario 3 with the rule \<^verbatim>\<open>123\<close>: the first user message receives the masked text of
  both user messages, the second user message is still \<^verbatim>\<open>public\<close>.
\<close>

theorem C6_first_user_message_only_witness:
  "compile_patterns py_re (rules (parameters_with_rules [''123''])) =
     Inr [[Item (CSet False [(CHR ''1'', CHR ''1'')]) 1 (Some 1),
           Item (CSet False [(CHR ''2'', CHR ''2'')]) 1 (Some 1),
           Item (CSet False [(CHR ''3'', CHR ''3'')]) 1 (Some 1)]]
   \<and> process py_re scenario_3_prompt None (parameters_with_rules [''123'']) =
       Inr (\<lparr>messages = [\<lparr>content = ''be brief'', role = SYSTEM\<rparr>,
                          \<lparr>content = ''secret:*** public'', role = USER\<rparr>,
                          \<lparr>content = ''noted'', role = ASSISTANT\<rparr>,
                          \<lparr>content = ''public'', role = USER\<rparr>]\<rparr>,
            None,
            \<lparr>processor_result = [(''llm_flow'', ''debug'')], tags = [], modified = True,
             modified_prompt =
               Some \<lparr>messages = [\<lparr>content = ''be brief'', role = SYSTEM\<rparr>,
                          \<lparr>content = ''secret:*** public'', role = USER\<rparr>,
                          \<lparr>content = ''noted'', role = ASSISTANT\<rparr>,
                          \<lparr>content = ''public'', role = USER\<rparr>]\<rparr>,
             modified_response = None\<rparr>)
   \<and> (\<exists>masked.
         mask_matches py_re
           (str_join '' '' (map content (filter (\<lambda>m. role m = USER) (messages scenario_3_prompt))))
           [''123''] 2 2 ''*'' = Inr masked
         \<and> content (messages scenario_3_prompt ! 1) = ''secret:123''
         \<and> masked = ''secret:*** public'')"
proof -
  let ?P' = "\<lparr>messages = [\<lparr>content = ''be brief'', role = SYSTEM\<rparr>,
                          \<lparr>content = ''secret:*** public'', role = USER\<rparr>,
                          \<lparr>content = ''noted'', role = ASSISTANT\<rparr>,
                          \<lparr>content = ''public'', role = USER\<rparr>]\<rparr>"
  let ?R = "\<lparr>processor_result = [(''llm_flow'', ''debug'')], tags = [], modified = True,
             modified_prompt = Some ?P', modified_response = None\<rparr>"
  have h1: "compile_patterns py_re (rules (parameters_with_rules [''123''])) =
     Inr [[Item (CSet False [(CHR ''1'', CHR ''1'')]) 1 (Some 1),
           Item (CSet False [(CHR ''2'', CHR ''2'')]) 1 (Some 1),
           Item (CSet False [(CHR ''3'', CHR ''3'')]) 1 (Some 1)]]"
    by code_simp
  have h2: "process py_re scenario_3_prompt None (parameters_with_rules [''123'']) =
       Inr (?P', None, ?R)"
    by code_simp
  from C6_first_user_message_only
    [of py_re "parameters_with_rules [''123'']" _ scenario_3_prompt None ?P' None ?R]
    h2
  obtain masked where
    m: "mask_matches py_re
          (str_join '' '' (map content (filter (\<lambda>m. role m = USER) (messages scenario_3_prompt))))
          (rules (parameters_with_rules [''123'']))
          (reveal_start (parameters_with_rules [''123'']))
          (reveal_end (parameters_with_rules [''123'']))
          (placeholder (parameters_with_rules [''123''])) = Inr masked"
    and c: "\<forall>i<length (messages scenario_3_prompt).
               role (messages ?P' ! i) = role (messages scenario_3_prompt ! i)
               \<and> content (messages ?P' ! i) =
                   (if role (messages scenario_3_prompt ! i) = USER
                       \<and> (\<forall>j<i. role (messages scenario_3_prompt ! j) \<noteq> USER)
                    then masked else content (messages scenario_3_prompt ! i))"
    by blast
  have m': "mask_matches py_re
           (str_join '' '' (map content (filter (\<lambda>m. role m = USER) (messages scenario_3_prompt))))
           [''123''] 2 2 ''*'' = Inr masked"
    using m by (simp add: parameters_with_rules_def DEFAULT_PLACEHOLDER_def)
  have "(1::nat) < length (messages scenario_3_prompt)"
    by (simp add: scenario_3_prompt_def)
  with c have "content (messages ?P' ! 1) =
                   (if role (messages scenario_3_prompt ! 1) = USER
                       \<and> (\<forall>j<1. role (messages scenario_3_prompt ! j) \<noteq> USER)
                    then masked else content (messages scenario_3_prompt ! 1))"
    by blast
  then have v: "masked = ''secret:*** public''"
    by (simp add: scenario_3_prompt_def)
  have k: "content (messages scenario_3_prompt ! 1) = ''secret:123''"
    by (simp add: scenario_3_prompt_def)
  from h1 h2 m' k v show ?thesis by blast
qed

subsection \<open>The response\<close>

text \<open>
  Claim C7. When the first choice of the response has a message, every choice's message
  content after \<^verbatim>\<open>process\<close> is the masked text of the first choice's original content,
  whatever the choice held before. \<^verbatim>\<open>process\<close> returns when every choice has a message and
  the rules compile.
\<close>

theorem C7_every_choice_gets_first_mask:
  "(response = Some r \<and> choices r = Some (c # cs) \<and> message c = Some m0
      \<and> process E prompt response parameters = Inr (prompt', response', result) \<longrightarrow>
      (\<exists>masked r' cs'.
         mask_matches E (content m0) (rules parameters) (reveal_start parameters)
           (reveal_end parameters) (placeholder parameters) = Inr masked
         \<and> response' = Some r' \<and> choices r' = Some cs' \<and> length cs' = length (c # cs)
         \<and> (\<forall>ch\<in>set cs'. \<exists>m. message ch = Some m \<and> content m = masked)))
   \<and> (response = Some r \<and> choices r = Some (c # cs)
      \<and> list_all (\<lambda>ch. message ch \<noteq> None) (c # cs)
      \<and> compile_patterns E (rules parameters) = Inr cps \<longrightarrow>
      (\<exists>prompt' r' result. process E prompt response parameters = Inr (prompt', Some r', result)))"
proof (intro conjI impI)
  assume a: "response = Some r \<and> choices r = Some (c # cs) \<and> message c = Some m0
      \<and> process E prompt response parameters = Inr (prompt', response', result)"
  then have mr: "mask_response E (Some r) parameters = Inr response'"
    using process_Inr by blast
  from a have ch: "choices r = Some (c # cs)" and mc: "message c = Some m0" by auto
  from mr ch mc obtain masked cs' where
    m: "mask_matches E (content m0) (rules parameters) (reveal_start parameters)
           (reveal_end parameters) (placeholder parameters) = Inr masked"
    and w: "write_choices (Some masked) (c # cs) = Inr cs'"
    and r': "response' = Some (r\<lparr>choices := Some cs'\<rparr>)"
    by (auto simp: mask_response_def extract_and_mask_def split: sum.splits)
  from write_choices_Inr[OF w] have "length cs' = length (c # cs)"
    and "\<forall>ch\<in>set cs'. \<exists>m. message ch = Some m \<and> content m = masked" by auto
  with m r' show "\<exists>masked r' cs'.
         mask_matches E (content m0) (rules parameters) (reveal_start parameters)
           (reveal_end parameters) (placeholder parameters) = Inr masked
         \<and> response' = Some r' \<and> choices r' = Some cs' \<and> length cs' = length (c # cs)
         \<and> (\<forall>ch\<in>set cs'. \<exists>m. message ch = Some m \<and> content m = masked)"
    by simp
next
  assume a: "response = Some r \<and> choices r = Some (c # cs)
      \<and> list_all (\<lambda>ch. message ch \<noteq> None) (c # cs)
      \<and> compile_patterns E (rules parameters) = Inr cps"
  then have cp: "compile_patterns E (rules parameters) = Inr cps"
    and la: "list_all (\<lambda>ch. message ch \<noteq> None) (c # cs)"
    and ch: "choices r = Some (c # cs)" and rs: "response = Some r" by auto
  from la obtain m0 where mc: "message c = Some m0" by auto
  from mask_matches_returns[OF cp] obtain out where
    o: "mask_matches E (user_input_of prompt) (rules parameters) (reveal_start parameters)
        (reveal_end parameters) (placeholder parameters) = Inr out" by blast
  from mask_matches_returns[OF cp] obtain masked where
    m: "mask_matches E (content m0) (rules parameters) (reveal_start parameters)
        (reveal_end parameters) (placeholder parameters) = Inr masked" by blast
  from write_choices_returns[OF la] obtain cs' where
    w: "write_choices (Some masked) (c # cs) = Inr cs'" by blast
  have "mask_response E response parameters = Inr (Some (r\<lparr>choices := Some cs'\<rparr>))"
    using rs ch mc m w by (simp add: mask_response_def extract_and_mask_def)
  from process_returns[OF o this]
  show "\<exists>prompt' r' result. process E prompt response parameters = Inr (prompt', Some r', result)"
    by blast
qed

text \<open>
  Scenario 4: the second choice, in which the rule matches nothing, ends with the masked
  text of the first.
\<close>

theorem C7_every_choice_gets_first_mask_witness:
  "process py_re \<lparr>messages = [\<lparr>content = ''hello'', role = USER\<rparr>]\<rparr>
      (Some scenario_4_response) (parameters_with_rules [id_rule]) =
     Inr (\<lparr>messages = [\<lparr>content = ''hello'', role = USER\<rparr>]\<rparr>,
          Some \<lparr>choices = Some
            [\<lparr>message = Some \<lparr>content = ''id 12*********23'', role = ASSISTANT\<rparr>\<rparr>,
             \<lparr>message = Some \<lparr>content = ''id 12*********23'', role = ASSISTANT\<rparr>\<rparr>]\<rparr>,
          \<lparr>processor_result = [(''llm_flow'', ''debug'')], tags = [], modified = True,
           modified_prompt = None,
           modified_response = Some \<lparr>choices = Some
            [\<lparr>message = Some \<lparr>content = ''id 12*********23'', role = ASSISTANT\<rparr>\<rparr>,
             \<lparr>message = Some \<lparr>content = ''id 12*********23'', role = ASSISTANT\<rparr>\<rparr>]\<rparr>\<rparr>)
   \<and> mask_matches py_re ''id 1234567890123'' [id_rule] 2 2 ''*'' = Inr ''id 12*********23''
   \<and> mask_matches py_re ''nothing to hide'' [id_rule] 2 2 ''*'' = Inr ''nothing to hide''
   \<and> list_all (\<lambda>ch. message ch \<noteq> None)
        [\<lparr>message = Some \<lparr>content = ''id 1234567890123'', role = ASSISTANT\<rparr>\<rparr>,
         \<lparr>message = Some \<lparr>content = ''nothing to hide'', role = ASSISTANT\<rparr>\<rparr>]
   \<and> (\<exists>masked r' cs'.
         mask_matches py_re ''id 1234567890123'' [id_rule] 2 2 ''*'' = Inr masked
         \<and> r' = \<lparr>choices = Some cs'\<rparr> \<and> length cs' = 2
         \<and> list_all (\<lambda>ch. map_option content (message ch) = Some masked) cs')"
proof -
  let ?c1 = "\<lparr>message = Some \<lparr>content = ''id 1234567890123'', role = ASSISTANT\<rparr>\<rparr>"
  let ?c2 = "\<lparr>message = Some \<lparr>content = ''nothing to hide'', role = ASSISTANT\<rparr>\<rparr>"
  let ?m = "\<lparr>message = Some \<lparr>content = ''id 12*********23'', role = ASSISTANT\<rparr>\<rparr>"
  let ?P = "\<lparr>messages = [\<lparr>content = ''hello'', role = USER\<rparr>]\<rparr>"
  let ?R = "\<lparr>processor_result = [(''llm_flow'', ''debug'')], tags = [], modified = True,
           modified_prompt = None,
           modified_response = Some \<lparr>choices = Some [?m, ?m]\<rparr>\<rparr>"
  have e: "process py_re ?P (Some scenario_4_response) (parameters_with_rules [id_rule]) =
     Inr (?P, Some \<lparr>choices = Some [?m, ?m]\<rparr>, ?R)"
    by code_simp
  have a: "mask_matches py_re ''id 1234567890123'' [id_rule] 2 2 ''*'' = Inr ''id 12*********23''"
    by code_simp
  have b: "mask_matches py_re ''nothing to hide'' [id_rule] 2 2 ''*'' = Inr ''nothing to hide''"
    by code_simp
  have l: "list_all (\<lambda>ch. message ch \<noteq> None) [?c1, ?c2]" by simp
  have s: "Some scenario_4_response = Some scenario_4_response
      \<and> choices scenario_4_response = Some [?c1, ?c2]
      \<and> message ?c1 = Some \<lparr>content = ''id 1234567890123'', role = ASSISTANT\<rparr>
      \<and> process py_re ?P (Some scenario_4_response) (parameters_with_rules [id_rule]) =
           Inr (?P, Some \<lparr>choices = Some [?m, ?m]\<rparr>, ?R)"
    using e by (simp add: scenario_4_response_def)
  from C7_every_choice_gets_first_mask
    [of "Some scenario_4_response" scenario_4_response ?c1 "[?c2]"
        "\<lparr>content = ''id 1234567890123'', role = ASSISTANT\<rparr>" py_re ?P
        "parameters_with_rules [id_rule]" ?P "Some \<lparr>choices = Some [?m, ?m]\<rparr>" ?R]
    s
  obtain masked r' cs' where
    m: "mask_matches py_re (content \<lparr>content = ''id 1234567890123'', role = ASSISTANT\<rparr>)
          (rules (parameters_with_rules [id_rule]))
          (reveal_start (parameters_with_rules [id_rule]))
          (reveal_end (parameters_with_rules [id_rule]))
          (placeholder (parameters_with_rules [id_rule])) = Inr masked"
    and r: "Some \<lparr>choices = Some [?m, ?m]\<rparr> = Some r'" "choices r' = Some cs'"
      "length cs' = length [?c1, ?c2]"
      "\<forall>ch\<in>set cs'. \<exists>m. message ch = Some m \<and> content m = masked"
    by blast
  have m': "mask_matches py_re ''id 1234567890123'' [id_rule] 2 2 ''*'' = Inr masked"
    using m by (simp add: parameters_with_rules_def DEFAULT_PLACEHOLDER_def)
  from r have r'': "r' = \<lparr>choices = Some cs'\<rparr>" "length cs' = 2" by auto
  from r(4) have "list_all (\<lambda>ch. map_option content (message ch) = Some masked) cs'"
    by (auto simp: list_all_iff)
  with m' r'' have "\<exists>masked r' cs'.
         mask_matches py_re ''id 1234567890123'' [id_rule] 2 2 ''*'' = Inr masked
         \<and> r' = \<lparr>choices = Some cs'\<rparr> \<and> length cs' = 2
         \<and> list_all (\<lambda>ch. map_option content (message ch) = Some masked) cs'"
    by blast
  with e a b l show ?thesis by blast
qed

text \<open>
  Claim C8. \<^verbatim>\<open>process\<close> should not raise on a response that lacks parts. The code raises
  \<^verbatim>\<open>UnboundLocalError\<close> for a response whose first choice has no message: the variable
  \<^verbatim>\<open>masked_response_content\<close> is read in the loop and was never assigned. It raises
  \<^verbatim>\<open>AttributeError\<close> for a response without the attribute \<^verbatim>\<open>choices\<close>: the loop reads
  \<^verbatim>\<open>response.choices\<close> outside the \<^verbatim>\<open>hasattr\<close> test.
\<close>

theorem C8_deficient_response_raises:
  "process py_re \<lparr>messages = [\<lparr>content = ''hi'', role = USER\<rparr>]\<rparr>
      (Some \<lparr>choices = Some [\<lparr>message = None\<rparr>]\<rparr>)
      (parameters_with_rules [id_rule]) = Inl UnboundLocalError
   \<and> process py_re \<lparr>messages = [\<lparr>content = ''hi'', role = USER\<rparr>]\<rparr>
      (Some \<lparr>choices = None\<rparr>)
      (parameters_with_rules [id_rule]) = Inl AttributeError"
  by code_simp

subsection \<open>Rules that are not regular expressions\<close>

text \<open>
  Claim C9, as the code has it. When the library rejects one of the rules, every call of
  \<^verbatim>\<open>mask_matches\<close> raises the error of the first rejected rule, whatever the text, the
  reveal counts and the placeholder, and whatever the matcher would report: all rules are
  compiled, in order, before the first substitution, and they are compiled on each call.
  \<^verbatim>\<open>process\<close> raises the same error, while it handles the request.
\<close>

theorem C9_error_on_every_call:
  assumes "p \<in> set patterns" and "compile E p = Inl err"
  shows "\<exists>err'.
     (\<forall>txt rs re ph f. mask_matches (E\<lparr>finditer := f\<rparr>) txt patterns rs re ph = Inl err')
     \<and> (\<forall>txt rs re ph. mask_matches E txt patterns rs re ph = Inl err')
     \<and> (\<forall>prompt response parameters.
           rules parameters = patterns \<longrightarrow> process E prompt response parameters = Inl err')
     \<and> (\<exists>good q rest cps. patterns = good @ q # rest \<and> compile_patterns E good = Inr cps
           \<and> compile E q = Inl err')"
proof -
  from rejected_rule_split[OF assms]
  obtain good q rest err' cps where g: "patterns = good @ q # rest"
    "compile_patterns E good = Inr cps" "compile E q = Inl err'" by blast
  have cp: "compile_patterns E patterns = Inl err'"
    unfolding g(1) by (rule compile_patterns_first_failure[OF g(2,3)])
  have a: "mask_matches (E\<lparr>finditer := f\<rparr>) s patterns rs re ph = Inl err'"
    for s rs re ph f
    by (simp add: mask_matches_def compile_patterns_finditer_update cp)
  have b: "mask_matches E s patterns rs re ph = Inl err'" for s rs re ph
    by (simp add: mask_matches_def cp)
  have c: "process E prompt response parameters = Inl err'"
    if "rules parameters = patterns" for prompt response parameters
    by (simp add: process_def that b)
  from a b c g show ?thesis by blast
qed

text \<open>The rule \<^verbatim>\<open>[\<close>, an unterminated character set, between two rules that compile.\<close>

theorem C9_error_on_every_call_witness:
  "''['' \<in> set [id_rule, ''['', email_rule]
   \<and> compile py_re ''['' = Inl (ReError ''['')
   \<and> mask_matches py_re ''hello'' [id_rule, ''['', email_rule] 2 2 ''*'' = Inl (ReError ''['')
   \<and> mask_matches py_re ''a@b.com'' [id_rule, ''['', email_rule] 0 1 ''#'' = Inl (ReError ''['')"
proof -
  have h1: "''['' \<in> set [id_rule, ''['', email_rule]" by simp
  have h2: "compile py_re ''['' = Inl (ReError ''['')" by code_simp
  from C9_error_on_every_call [OF h1 h2]
  obtain err' where
    e: "\<forall>txt rs re ph. mask_matches py_re txt [id_rule, ''['', email_rule] rs re ph = Inl err'"
    by blast
  have v: "mask_matches py_re ''hello'' [id_rule, ''['', email_rule] 2 2 ''*'' = Inl (ReError ''['')"
    by code_simp
  from e v have "err' = ReError ''[''" by simp
  with e have "\<forall>txt rs re ph.
      mask_matches py_re txt [id_rule, ''['', email_rule] rs re ph = Inl (ReError ''['')"
    by simp
  with h1 h2 show ?thesis by blast
qed

text \<open>
  The error does not come at configuration time: the parameters with the rule \<^verbatim>\<open>[\<close> are
  built, and the error is what \<^verbatim>\<open>process\<close> returns for a request.
\<close>

theorem C9_counterexample:
  "PatternRedactorParameters_init [''[''] False ''*'' 2 2 =
     Inr \<lparr>rules = [''[''], debug_echo = False, placeholder = ''*'',
          reveal_start = 2, reveal_end = 2\<rparr>
   \<and> process py_re \<lparr>messages = [\<lparr>content = ''hello'', role = USER\<rparr>]\<rparr> None
        \<lparr>rules = [''[''], debug_echo = False, placeholder = ''*'',
         reveal_start = 2, reveal_end = 2\<rparr> = Inl (ReError ''['')"
  by code_simp

subsection \<open>No pattern, no text\<close>

text \<open>
  Claim C10. With an empty list of patterns \<^verbatim>\<open>mask_matches\<close> returns its text unchanged.
  With the empty text it returns the empty text for every list of patterns that compile
  (it raises the compile error otherwise), the reveal counts being non-negative: a match in
  the empty text is empty, and its replacement is the placeholder repeated zero times.
\<close>

theorem C10_no_pattern_no_text:
  "mask_matches E text [] rs re ph = Inr text
   \<and> (0 \<le> rs + re \<longrightarrow>
        mask_matches E [] patterns rs re ph =
          (case compile_patterns E patterns of Inl err \<Rightarrow> Inl err | Inr cps \<Rightarrow> Inr []))"
proof -
  have "partial_mask rs re ph [] = []" if "0 \<le> rs + re"
    using that by (simp add: partial_mask_def str_mul_def)
  then show ?thesis
    by (simp add: mask_matches_def sub_all_empty_text split: sum.splits)
qed

text \<open>
  The empty text under \<^verbatim>\<open>x*\<close>, which matches the empty string, and the e-mail rule.
\<close>

theorem C10_no_pattern_no_text_witness:
  "(0::int) \<le> 0 + 0
   \<and> mask_matches py_re ''my id is 1234567890123'' [] 0 0 ''*'' = Inr ''my id is 1234567890123''
   \<and> mask_matches py_re [] [''x*'', email_rule] 0 0 ''*'' = Inr []"
proof -
  have h: "(0::int) \<le> 0 + 0" by simp
  have c: "(case compile_patterns py_re [''x*'', email_rule] of
             Inl err \<Rightarrow> Inl err | Inr cps \<Rightarrow> Inr []) = (Inr [] :: py_error + string)"
    by code_simp
  from C10_no_pattern_no_text
         [of py_re "''my id is 1234567890123''" 0 0 "''*''" "[''x*'', email_rule]"]
    h
  show ?thesis unfolding c by simp
qed

end
